theory Spec2Isabelle
  imports Complex_Main "HOL-Library.Word"
begin

unbundle bit_operations_syntax

section \<open>Data model\<close>

text \<open>
  The development embeds the identifier codec, the TLV reader, the identifier
  reconstruction, the address resolution, the retrying HTTP request and the relay
  capability probe of \<^verbatim>\<open>publish_nostr.py\<close>.

  Python's \<^verbatim>\<open>bytes\<close> is a list of 8-bit words, Python's unbounded \<^verbatim>\<open>int\<close> is
  \<^typ>\<open>int\<close>, a \<^verbatim>\<open>str\<close> that the codec inspects is a \<^typ>\<open>string\<close>.  Every
  \<^verbatim>\<open>raise\<close> of the source is a constructor of \<open>error\<close>; a function that can raise
  returns \<open>error + 'a\<close> with \<open>Inl\<close> for the exception.
\<close>

type_synonym byte = "8 word"
type_synonym bytes = "byte list"

datatype error =
    AssertionError
  | TransportError string
  | HTTPError int
  | OverflowError
  | HttpStatus int
  | HttpRequestFailed
  | InvalidBech32String
  | InvalidPayloadConversion
  | NotAnNprofile
  | InvalidNprofileBech32
  | NprofileMissingPubkey
  | NotAnNaddr
  | InvalidNaddrBech32
  | NaddrMissingIdentifier
  | NaddrIdentifierNotUtf8
  | NaddrMissingAuthor
  | NaddrMissingKind
  | NoEventFound
  | SdkError string
  | IndexError
  | ByteValueError
  | ShiftCountError
  | AttributeError
  | JsonError
  | NoReturn

text \<open>
  \<open>HTTPError n\<close> is urllib's \<^verbatim>\<open>HTTPError\<close> for the status \<open>n\<close>; \<open>OverflowError\<close> is
  raised when an integer beyond the range of a float is converted to one.
  \<open>HttpStatus n\<close> is \<^verbatim>\<open>RuntimeError(f"HTTP {n}")\<close>, \<open>HttpRequestFailed\<close> is
  \<^verbatim>\<open>RuntimeError("HTTP request failed")\<close>; the constructors from \<open>InvalidBech32String\<close>
  to \<open>NaddrMissingKind\<close> are the \<^verbatim>\<open>ValueError\<close>s of the codec, one per message;
  \<open>NoEventFound\<close> is the \<^verbatim>\<open>RuntimeError\<close> of the resolver.  \<open>TransportError\<close>,
  \<open>SdkError\<close>, \<open>JsonError\<close> stand for whatever urllib, the relay SDK and the JSON
  parser raise.  \<open>IndexError\<close>, \<open>ByteValueError\<close> and \<open>AttributeError\<close> are raised
  by the interpreter on an index out of range, on a \<^verbatim>\<open>bytearray.append\<close> outside
  \<open>0..255\<close> and on \<^verbatim>\<open>.get\<close> of a value that is not a dict; \<open>ShiftCountError\<close> is the
  \<^verbatim>\<open>ValueError\<close> of a shift by a negative count.  \<open>NoReturn\<close> marks a
  call whose inner loop does not come back.
\<close>

subsection \<open>Strings\<close>

definition ord :: "char \<Rightarrow> int" where
  "ord c = of_char c"

definition upper_char :: "char \<Rightarrow> char" where
  "upper_char c =
     (let n = (of_char c :: nat) in if 97 \<le> n \<and> n \<le> 122 then char_of (n - 32) else c)"

definition lower_char :: "char \<Rightarrow> char" where
  "lower_char c =
     (let n = (of_char c :: nat) in if 65 \<le> n \<and> n \<le> 90 then char_of (n + 32) else c)"

text \<open>
  \<^verbatim>\<open>str.upper\<close> and \<^verbatim>\<open>str.lower\<close> on the ASCII letters.  Outside ASCII Python
  consults the Unicode tables; the codec rejects every string holding a character
  outside \<open>33..126\<close> whatever the two functions return there.
\<close>

definition upper :: "string \<Rightarrow> string" where
  "upper s = map upper_char s"

definition lower :: "string \<Rightarrow> string" where
  "lower s = map lower_char s"

definition startswith :: "string \<Rightarrow> string \<Rightarrow> bool" where
  "startswith s p = (take (length p) s = p)"

definition rfind :: "string \<Rightarrow> char \<Rightarrow> int" where
  "rfind s c =
     (if c \<in> set s then int (length s - 1 - length (takeWhile (\<lambda>x. x \<noteq> c) (rev s)))
      else - 1)"

text \<open>
  \<^verbatim>\<open>str.rfind\<close> for a one-character needle: the highest index holding the
  character, \<open>-1\<close> when there is none.
\<close>

subsection \<open>Byte strings\<close>

definition getitem :: "'a list \<Rightarrow> nat \<Rightarrow> error + 'a" where
  "getitem xs i = (if i < length xs then Inr (xs ! i) else Inl IndexError)"

definition slice :: "'a list \<Rightarrow> nat \<Rightarrow> nat \<Rightarrow> 'a list" where
  "slice xs a b = take (b - a) (drop a xs)"

definition hexdigit :: "nat \<Rightarrow> char" where
  "hexdigit n = ''0123456789abcdef'' ! n"

definition hex :: "bytes \<Rightarrow> string" where
  "hex bs = concat (map (\<lambda>b. [hexdigit (unat b div 16), hexdigit (unat b mod 16)]) bs)"

definition int_from_bytes_big :: "bytes \<Rightarrow> int" where
  "int_from_bytes_big bs = fold (\<lambda>b a. a * 256 + uint b) bs 0"

section \<open>Minimal HTTP with retry and backoff\<close>

record response =
  status_code :: int
  headers :: "(string \<times> string) list"
  content :: bytes

text \<open>
  What \<^verbatim>\<open>http_request\<close> does to the outside world: it runs the body of its
  \<^verbatim>\<open>try\<close> (build the request, open the URL, read the answer) and it sleeps.
  \<open>Attempt k\<close> is the pass with \<^verbatim>\<open>attempt == k\<close>, \<open>Sleep d\<close> is
  \<^verbatim>\<open>asyncio.sleep(d)\<close>.
\<close>

datatype event = Attempt nat | Sleep rat

text \<open>
  The name \<^verbatim>\<open>urlopen\<close> is a parameter: \<open>send k\<close> is what the request construction
  and the call of \<^verbatim>\<open>urlopen\<close> give on pass \<open>k\<close>, an exception or the response read.
  The tests of the repository bind the name to a stub that returns a response of any
  status.  The program binds it to urllib's function, \<open>urllib_urlopen\<close> below.
\<close>

definition try_body :: "(nat \<Rightarrow> error + response) \<Rightarrow> nat \<Rightarrow> error + response" where
  "try_body send attempt =
     (case send attempt of
        Inl e \<Rightarrow> Inl e
      | Inr resp \<Rightarrow>
          if status_code resp \<ge> 500 \<or> status_code resp = 429
          then Inl (HttpStatus (status_code resp))
          else Inr resp)"

text \<open>
  The delay \<^verbatim>\<open>(2 ** attempt) * 0.5\<close> is the product of an integer and a float.  Up to
  \<^verbatim>\<open>attempt == 1023\<close> it is a power of two that a float holds exactly, given here as
  a rational.  From \<^verbatim>\<open>attempt == 1024\<close> on the integer is beyond the range of a float
  and the product raises \<^verbatim>\<open>OverflowError\<close>; this happens inside the \<^verbatim>\<open>except\<close>
  clause, so the exception leaves \<^verbatim>\<open>http_request\<close>.
\<close>

definition backoff_delay :: "nat \<Rightarrow> error + rat" where
  "backoff_delay attempt =
     (if attempt \<ge> 1024 then Inl OverflowError else Inr (2 ^ attempt * (1 / 2)))"

function http_loop ::
  "(nat \<Rightarrow> error + response) \<Rightarrow> int \<Rightarrow> nat \<Rightarrow> error option \<Rightarrow> event list
     \<Rightarrow> (error + response) \<times> event list" where
  "http_loop send max_retries attempt last_exc tr =
     (if int attempt < max_retries then
        (case try_body send attempt of
           Inr resp \<Rightarrow> (Inr resp, tr @ [Attempt attempt])
         | Inl e \<Rightarrow>
             (case backoff_delay attempt of
                Inl overflow \<Rightarrow> (Inl overflow, tr @ [Attempt attempt])
              | Inr delay \<Rightarrow>
                  http_loop send max_retries (attempt + 1) (Some e)
                    (tr @ [Attempt attempt, Sleep delay])))
      else (Inl (case last_exc of Some e \<Rightarrow> e | None \<Rightarrow> HttpRequestFailed), tr))"
  by pat_completeness auto
termination
  by (relation "measure (\<lambda>(send, m, a, l, tr). nat (m - int a))") auto

definition http_request ::
  "string \<Rightarrow> (nat \<Rightarrow> error + response) \<Rightarrow> int \<Rightarrow> (error + response) \<times> event list" where
  "http_request method send max_retries =
     (if upper method \<notin> {''GET'', ''POST''} then (Inl AssertionError, [])
      else http_loop send max_retries 0 None [])"

text \<open>
  urllib's \<^verbatim>\<open>urlopen\<close> as the loop sees it.  \<open>wire k\<close> is what the network gives on
  pass \<open>k\<close>: a fault that prevents an answer, or the server's final answer after the
  redirects urllib follows.  The function returns an answer whose status lies in
  \<open>200..299\<close> and raises \<^verbatim>\<open>HTTPError\<close> for every other status.
\<close>

definition urllib_urlopen :: "(nat \<Rightarrow> error + response) \<Rightarrow> nat \<Rightarrow> error + response" where
  "urllib_urlopen wire k =
     (case wire k of
        Inl e \<Rightarrow> Inl e
      | Inr resp \<Rightarrow>
          if 200 \<le> status_code resp \<and> status_code resp < 300 then Inr resp
          else Inl (HTTPError (status_code resp)))"

text \<open>The retry policy in the words of the specification.\<close>

definition attempt_fails :: "(nat \<Rightarrow> error + response) \<Rightarrow> nat \<Rightarrow> bool" where
  "attempt_fails send k =
     (case send k of Inl _ \<Rightarrow> True | Inr r \<Rightarrow> status_code r \<ge> 500 \<or> status_code r = 429)"

definition raised :: "(nat \<Rightarrow> error + response) \<Rightarrow> nat \<Rightarrow> error" where
  "raised send k = (case send k of Inl e \<Rightarrow> e | Inr r \<Rightarrow> HttpStatus (status_code r))"

definition backoff_from :: "nat \<Rightarrow> nat \<Rightarrow> event list" where
  "backoff_from a m = concat (map (\<lambda>k. [Attempt k, Sleep (2 ^ k * (1 / 2))]) [a..<m])"

definition sleeps :: "event list \<Rightarrow> rat list" where
  "sleeps tr = concat (map (\<lambda>e. case e of Sleep d \<Rightarrow> [d] | Attempt _ \<Rightarrow> []) tr)"

definition attempts :: "event list \<Rightarrow> nat list" where
  "attempts tr = concat (map (\<lambda>e. case e of Attempt k \<Rightarrow> [k] | Sleep _ \<Rightarrow> []) tr)"

text \<open>
  Sample runs.  \<open>sample_test_stub\<close> is the stub of the repository's test
  \<^verbatim>\<open>test_http_request_retry_then_success\<close>: a response with status 500 on the first
  call, then 200 with the body \<^verbatim>\<open>{"ok": true}\<close>.  The others are answers of the
  network, to be read through \<open>urllib_urlopen\<close>: a server that answers 500, then times
  out, then answers 200; a server that always answers 404; a server that refuses the
  connection, except for one answer 429.
\<close>

definition sample_test_stub :: "nat \<Rightarrow> error + response" where
  "sample_test_stub k =
     (if k = 0
      then Inr \<lparr>status_code = 500, headers = [],
                content = [115, 101, 114, 118, 101, 114, 32, 101, 114, 114, 111, 114]\<rparr>
      else Inr \<lparr>status_code = 200, headers = [],
                content = [123, 34, 111, 107, 34, 58, 32, 116, 114, 117, 101, 125]\<rparr>)"

definition sample_wire_flaky :: "nat \<Rightarrow> error + response" where
  "sample_wire_flaky k =
     (if k = 0 then Inr \<lparr>status_code = 500, headers = [], content = []\<rparr>
      else if k = 1 then Inl (TransportError ''timed out'')
      else Inr \<lparr>status_code = 200, headers = [], content = [111, 107]\<rparr>)"

definition sample_wire_404 :: "nat \<Rightarrow> error + response" where
  "sample_wire_404 k = Inr \<lparr>status_code = 404, headers = [], content = []\<rparr>"

definition sample_wire_down :: "nat \<Rightarrow> error + response" where
  "sample_wire_down k =
     (if k = 1 then Inr \<lparr>status_code = 429, headers = [], content = []\<rparr>
      else Inl (TransportError ''connection refused''))"

section \<open>Bech32 and the NIP-19 payload\<close>

definition BECH32_CHARSET :: string where
  "BECH32_CHARSET = ''qpzry9x8gf2tvdw0s3jn54khce6mua7l''"

text \<open>
  \<^verbatim>\<open>{c: i for i, c in enumerate(_BECH32_CHARSET)}\<close>: a later pair would overwrite an
  earlier one, so the list is searched from its end.
\<close>

definition BECH32_CHARSET_MAP :: "char \<rightharpoonup> int" where
  "BECH32_CHARSET_MAP = map_of (rev (map (\<lambda>(i, c). (c, int i)) (enumerate 0 BECH32_CHARSET)))"

definition GEN :: "int list" where
  "GEN = [0x3b6a57b2, 0x26508e6d, 0x1ea119fa, 0x3d4233dd, 0x2a1462b3]"

text \<open>One pass of the loop over \<^verbatim>\<open>values\<close> in \<^verbatim>\<open>_bech32_polymod\<close>.\<close>

definition polymod_step :: "int \<Rightarrow> int \<Rightarrow> int" where
  "polymod_step chk v =
     (let b = drop_bit 25 chk AND 0xFF;
          chk = push_bit 5 (chk AND 0x1FFFFFF) XOR v
      in fold (\<lambda>i chk. chk XOR (if drop_bit i b AND 1 \<noteq> 0 then GEN ! i else 0)) [0..<5] chk)"

definition bech32_polymod :: "int list \<Rightarrow> int" where
  "bech32_polymod values = fold (\<lambda>v chk. polymod_step chk v) values 1"

definition bech32_hrp_expand :: "string \<Rightarrow> int list" where
  "bech32_hrp_expand hrp = map (\<lambda>x. drop_bit 5 (ord x)) hrp @ [0] @ map (\<lambda>x. ord x AND 31) hrp"

definition bech32_verify_checksum :: "string \<Rightarrow> int list \<Rightarrow> bool" where
  "bech32_verify_checksum hrp data = (bech32_polymod (bech32_hrp_expand hrp @ data) = 1)"

text \<open>
  \<^verbatim>\<open>_bech32_decode_to_words\<close> returns \<^verbatim>\<open>(None, None)\<close> or a pair of a prefix and a
  word list: \<open>None\<close> or \<open>Some\<close> of the pair.  The list comprehension over
  \<^verbatim>\<open>_BECH32_CHARSET_MAP[c]\<close> raises \<^verbatim>\<open>KeyError\<close> at the first character that is
  not a key, which the function catches.
\<close>

definition bech32_decode_to_words :: "string \<Rightarrow> (string \<times> int list) option" where
  "bech32_decode_to_words bech =
     (if (lower bech \<noteq> bech \<and> upper bech \<noteq> bech) \<or> (\<exists>x\<in>set bech. ord x < 33 \<or> ord x > 126)
      then None
      else
        let bech = lower bech;
            pos = rfind bech (CHR ''1'')
        in if pos < 1 \<or> pos + 7 > int (length bech) then None
           else
             let hrp = take (nat pos) bech;
                 data_part = drop (nat (pos + 1)) bech
             in case those (map BECH32_CHARSET_MAP data_part) of
                  None \<Rightarrow> None
                | Some data \<Rightarrow>
                    if \<not> bech32_verify_checksum hrp data then None
                    else Some (hrp, take (length data - 6) data))"

text \<open>
  The inner \<^verbatim>\<open>while bits >= tobits\<close> of \<^verbatim>\<open>_convertbits\<close>.  With \<^verbatim>\<open>tobits == 0\<close> it
  never ends, so it is a partial function and \<open>None\<close> is the run that does not
  return.  \<^verbatim>\<open>ret.append\<close> raises on a value above 255.
\<close>

partial_function (option) convertbits_while ::
  "nat \<Rightarrow> int \<Rightarrow> int \<Rightarrow> nat \<Rightarrow> int list \<Rightarrow> (error + nat \<times> int list) option" where
  "convertbits_while tobits maxv acc bits ret =
     (if bits \<ge> tobits then
        (let bits = bits - tobits;
             b = drop_bit bits acc AND maxv
         in if b > 255 then Some (Inl ByteValueError)
            else convertbits_while tobits maxv acc bits (ret @ [b]))
      else Some (Inr (bits, ret)))"

declare convertbits_while.simps [code]

text \<open>
  The loop over \<^verbatim>\<open>data\<close>: \<open>Some (Inr None)\<close> is the early \<^verbatim>\<open>return None\<close> on a
  value that is negative or wider than \<^verbatim>\<open>frombits\<close>; otherwise the final
  \<^verbatim>\<open>acc\<close>, \<^verbatim>\<open>bits\<close> and \<^verbatim>\<open>ret\<close>.
\<close>

fun convertbits_for ::
  "nat \<Rightarrow> nat \<Rightarrow> int \<Rightarrow> int \<Rightarrow> int list \<Rightarrow> int \<Rightarrow> nat \<Rightarrow> int list
     \<Rightarrow> (error + (int \<times> nat \<times> int list) option) option" where
  "convertbits_for frombits tobits maxv max_acc [] acc bits ret =
     Some (Inr (Some (acc, bits, ret)))"
| "convertbits_for frombits tobits maxv max_acc (v # data) acc bits ret =
     (if v < 0 \<or> drop_bit frombits v \<noteq> 0 then Some (Inr None)
      else
        let acc = (push_bit frombits acc OR v) AND max_acc;
            bits = bits + frombits
        in case convertbits_while tobits maxv acc bits ret of
             None \<Rightarrow> None
           | Some (Inl e) \<Rightarrow> Some (Inl e)
           | Some (Inr (bits, ret)) \<Rightarrow>
               convertbits_for frombits tobits maxv max_acc data acc bits ret)"

text \<open>
  \<^verbatim>\<open>_convertbits\<close>; the widths are shift counts and therefore natural numbers, and
  \<^verbatim>\<open>1 << (frombits + tobits - 1)\<close> raises when both are 0.  The
  result is \<open>None\<close> when the call does not return, \<open>Some (Inl e)\<close> when it raises,
  \<open>Some (Inr None)\<close> when it returns \<^verbatim>\<open>None\<close> and \<open>Some (Inr (Some b))\<close> when it
  returns the bytes \<open>b\<close>.
\<close>

definition convertbits ::
  "int list \<Rightarrow> nat \<Rightarrow> nat \<Rightarrow> bool \<Rightarrow> (error + bytes option) option" where
  "convertbits data frombits tobits pad =
     (if frombits + tobits = 0 then Some (Inl ShiftCountError)
      else
      let maxv = push_bit tobits 1 - 1;
          max_acc = push_bit (frombits + tobits - 1) 1 - 1
      in case convertbits_for frombits tobits maxv max_acc data 0 0 [] of
           None \<Rightarrow> None
         | Some (Inl e) \<Rightarrow> Some (Inl e)
         | Some (Inr None) \<Rightarrow> Some (Inr None)
         | Some (Inr (Some (acc, bits, ret))) \<Rightarrow>
             if pad then
               (if bits \<noteq> 0 then
                  (let b = push_bit (tobits - bits) acc AND maxv
                   in if b > 255 then Some (Inl ByteValueError)
                      else Some (Inr (Some (map of_int (ret @ [b])))))
                else Some (Inr (Some (map of_int ret))))
             else if bits \<ge> frombits \<or> push_bit (tobits - bits) acc AND maxv \<noteq> 0
                  then Some (Inr None)
                  else Some (Inr (Some (map of_int ret))))"

definition nip19_payload :: "string \<Rightarrow> error + string \<times> bytes" where
  "nip19_payload bech32_str =
     (case bech32_decode_to_words bech32_str of
        None \<Rightarrow> Inl InvalidBech32String
      | Some (hrp, words) \<Rightarrow>
          (case convertbits words 5 8 False of
             None \<Rightarrow> Inl NoReturn
           | Some (Inl e) \<Rightarrow> Inl e
           | Some (Inr None) \<Rightarrow> Inl InvalidPayloadConversion
           | Some (Inr (Some b)) \<Rightarrow> Inr (hrp, b)))"

subsection \<open>The decoder in the words of the specification\<close>

definition is_upper_letter :: "char \<Rightarrow> bool" where
  "is_upper_letter c = (65 \<le> (of_char c :: nat) \<and> (of_char c :: nat) \<le> 90)"

definition is_lower_letter :: "char \<Rightarrow> bool" where
  "is_lower_letter c = (97 \<le> (of_char c :: nat) \<and> (of_char c :: nat) \<le> 122)"

definition mixes_case :: "string \<Rightarrow> bool" where
  "mixes_case s = ((\<exists>c\<in>set s. is_upper_letter c) \<and> (\<exists>c\<in>set s. is_lower_letter c))"

definition unprintable :: "string \<Rightarrow> bool" where
  "unprintable s = (\<exists>c\<in>set s. ord c < 33 \<or> 126 < ord c)"

definition separator :: "string \<Rightarrow> int" where
  "separator s = rfind (lower s) (CHR ''1'')"

definition separator_misplaced :: "string \<Rightarrow> bool" where
  "separator_misplaced s = (separator s < 1 \<or> int (length s) - (separator s + 1) < 6)"

definition prefix_part :: "string \<Rightarrow> string" where
  "prefix_part s = take (nat (separator s)) (lower s)"

definition data_part :: "string \<Rightarrow> string" where
  "data_part s = drop (nat (separator s + 1)) (lower s)"

definition symbol_value :: "char \<Rightarrow> int" where
  "symbol_value c = int (length (takeWhile (\<lambda>x. x \<noteq> c) BECH32_CHARSET))"

definition foreign_symbol :: "string \<Rightarrow> bool" where
  "foreign_symbol s = (\<exists>c\<in>set (data_part s). c \<notin> set BECH32_CHARSET)"

definition data_words :: "string \<Rightarrow> int list" where
  "data_words s = map symbol_value (data_part s)"

definition checksum_fails :: "string \<Rightarrow> bool" where
  "checksum_fails s =
     (bech32_polymod (bech32_hrp_expand (prefix_part s) @ data_words s) \<noteq> 1)"

definition payload_words :: "string \<Rightarrow> int list" where
  "payload_words s = take (length (data_words s) - 6) (data_words s)"

text \<open>
  A list of 5-bit words read as one bit string, most significant word first: its
  value, the number of bits left over after cutting it into octets, and the octets.
\<close>

definition bit_value :: "int list \<Rightarrow> int" where
  "bit_value ws = fold (\<lambda>w a. a * 32 + w) ws 0"

definition remainder_bits :: "int list \<Rightarrow> nat" where
  "remainder_bits ws = (5 * length ws) mod 8"

definition bad_remainder :: "int list \<Rightarrow> bool" where
  "bad_remainder ws =
     (remainder_bits ws \<ge> 5 \<or> bit_value ws mod 2 ^ remainder_bits ws \<noteq> 0)"

fun octets :: "nat \<Rightarrow> int \<Rightarrow> int list" where
  "octets 0 m = []"
| "octets (Suc q) m = octets q (m div 256) @ [m mod 256]"

definition regroup :: "int list \<Rightarrow> bytes" where
  "regroup ws =
     map of_int (octets ((5 * length ws) div 8) (bit_value ws div 2 ^ remainder_bits ws))"

section \<open>TLV reader\<close>

text \<open>
  The dictionary \<^verbatim>\<open>Dict[int, List[bytes]]\<close> is an association list in insertion
  order, as a Python dict keeps it; \<^verbatim>\<open>tlvs.setdefault(t, []).append(v)\<close> appends to
  the list of an existing key and adds a new key at the end.
\<close>

type_synonym tlv_dict = "(int \<times> bytes list) list"

fun setdefault_append :: "('k \<times> 'v list) list \<Rightarrow> 'k \<Rightarrow> 'v \<Rightarrow> ('k \<times> 'v list) list" where
  "setdefault_append [] t v = [(t, [v])]"
| "setdefault_append ((k, vs) # d) t v =
     (if k = t then (k, vs @ [v]) # d else (k, vs) # setdefault_append d t v)"

function parse_tlvs_loop :: "bytes \<Rightarrow> nat \<Rightarrow> tlv_dict \<Rightarrow> error + tlv_dict" where
  "parse_tlvs_loop payload i tlvs =
     (if i + 2 \<le> length payload then
        (case getitem payload i of
           Inl e \<Rightarrow> Inl e
         | Inr t \<Rightarrow>
             (case getitem payload (i + 1) of
                Inl e \<Rightarrow> Inl e
              | Inr l \<Rightarrow>
                  if i + 2 + unat l > length payload then Inr tlvs
                  else parse_tlvs_loop payload (i + 2 + unat l)
                         (setdefault_append tlvs (uint t)
                            (slice payload (i + 2) (i + 2 + unat l)))))
      else Inr tlvs)"
  by pat_completeness auto
termination
  by (relation "measure (\<lambda>(payload, i, tlvs). length payload - i)") auto

definition parse_tlvs :: "bytes \<Rightarrow> error + tlv_dict" where
  "parse_tlvs payload = parse_tlvs_loop payload 0 []"

text \<open>
  \<^verbatim>\<open>tlvs.get(t) or []\<close>: the list stored under the key, the empty list when the key
  is absent.
\<close>

definition get_or_empty :: "tlv_dict \<Rightarrow> int \<Rightarrow> bytes list" where
  "get_or_empty tlvs t = (case map_of tlvs t of None \<Rightarrow> [] | Some vs \<Rightarrow> vs)"

text \<open>
  The scan in the words of the specification: a record is one type byte, one length
  byte and that many value bytes; the scan ends, keeping what it has, when fewer than
  two header bytes or fewer value bytes than declared remain.
\<close>

function tlv_scan :: "bytes \<Rightarrow> tlv_dict \<Rightarrow> tlv_dict" where
  "tlv_scan [] acc = acc"
| "tlv_scan [t] acc = acc"
| "tlv_scan (t # l # rest) acc =
     (if length rest < unat l then acc
      else tlv_scan (drop (unat l) rest) (setdefault_append acc (uint t) (take (unat l) rest)))"
  by pat_completeness auto
termination
  by (relation "measure (\<lambda>(buf, acc). length buf)") auto

definition sample_tlv_buffer :: bytes where
  "sample_tlv_buffer = [0, 3, 97, 98, 99, 2, 32] @ replicate 32 1"

section \<open>Reconstructing identifiers\<close>

text \<open>
  Three things the decoders call are not part of the repository and are parameters:
  \<open>utf8_decode\<close> is \<^verbatim>\<open>bytes.decode("utf-8")\<close>, \<open>None\<close> when it raises, with
  \<open>'text\<close> the type of decoded text; \<open>strip_wrappers\<close> and \<open>find_candidate_token\<close>
  are the two normalisers, which rest on \<^verbatim>\<open>urlparse\<close> and on the regular expression
  engine.  The claims speak about the token the normalisers hand over.
\<close>

text \<open>
  The loop \<^verbatim>\<open>for r in ...: try: rels.append(r.decode("utf-8")) except: continue\<close>.
\<close>

fun decode_relays :: "(bytes \<Rightarrow> 'text option) \<Rightarrow> bytes list \<Rightarrow> 'text list" where
  "decode_relays utf8_decode [] = []"
| "decode_relays utf8_decode (r # rs) =
     (case utf8_decode r of
        Some t \<Rightarrow> t # decode_relays utf8_decode rs
      | None \<Rightarrow> decode_relays utf8_decode rs)"

definition decode_nprofile ::
  "(bytes \<Rightarrow> 'text option) \<Rightarrow> (string \<Rightarrow> string) \<Rightarrow> (string \<Rightarrow> string) \<Rightarrow> string
     \<Rightarrow> error + string \<times> 'text list" where
  "decode_nprofile utf8_decode strip_wrappers find_candidate_token nprofile =
     (let s = strip_wrappers nprofile;
          s = find_candidate_token s
      in if \<not> startswith (lower s) ''nprofile1'' then Inl NotAnNprofile
         else
           case nip19_payload (lower s) of
             Inl e \<Rightarrow> Inl e
           | Inr (hrp, payload) \<Rightarrow>
               if hrp \<noteq> ''nprofile'' then Inl InvalidNprofileBech32
               else
                 (case parse_tlvs payload of
                    Inl e \<Rightarrow> Inl e
                  | Inr tlvs \<Rightarrow>
                      (case get_or_empty tlvs 0 of
                         [] \<Rightarrow> Inl NprofileMissingPubkey
                       | pk # _ \<Rightarrow>
                           if length pk \<noteq> 32 then Inl NprofileMissingPubkey
                           else Inr (hex pk, decode_relays utf8_decode (get_or_empty tlvs 1)))))"

definition decode_naddr ::
  "(bytes \<Rightarrow> 'text option) \<Rightarrow> (string \<Rightarrow> string) \<Rightarrow> (string \<Rightarrow> string) \<Rightarrow> string
     \<Rightarrow> error + int \<times> string \<times> 'text \<times> 'text list" where
  "decode_naddr utf8_decode strip_wrappers find_candidate_token naddr =
     (let s = strip_wrappers naddr;
          s = find_candidate_token s
      in if \<not> startswith (lower s) ''naddr1'' then Inl NotAnNaddr
         else
           case nip19_payload (lower s) of
             Inl e \<Rightarrow> Inl e
           | Inr (hrp, payload) \<Rightarrow>
               if hrp \<noteq> ''naddr'' then Inl InvalidNaddrBech32
               else
                 (case parse_tlvs payload of
                    Inl e \<Rightarrow> Inl e
                  | Inr tlvs \<Rightarrow>
                     (case get_or_empty tlvs 0 of
                        [] \<Rightarrow> Inl NaddrMissingIdentifier
                      | id0 # _ \<Rightarrow>
                          (case utf8_decode id0 of
                             None \<Rightarrow> Inl NaddrIdentifierNotUtf8
                           | Some ident \<Rightarrow>
                               (case get_or_empty tlvs 2 of
                                  [] \<Rightarrow> Inl NaddrMissingAuthor
                                | author # _ \<Rightarrow>
                                    if length author \<noteq> 32 then Inl NaddrMissingAuthor
                                    else
                                      (case get_or_empty tlvs 3 of
                                         [] \<Rightarrow> Inl NaddrMissingKind
                                       | kind0 # _ \<Rightarrow>
                                           if length kind0 \<noteq> 4 then Inl NaddrMissingKind
                                           else
                                             Inr (int_from_bytes_big kind0, hex author, ident,
                                                  decode_relays utf8_decode
                                                    (get_or_empty tlvs 1))))))))"

subsection \<open>The TLV records in the words of the specification\<close>

text \<open>The records of a buffer in buffer order, and the values of one type.\<close>

function tlv_records :: "bytes \<Rightarrow> (int \<times> bytes) list" where
  "tlv_records [] = []"
| "tlv_records [t] = []"
| "tlv_records (t # l # rest) =
     (if length rest < unat l then []
      else (uint t, take (unat l) rest) # tlv_records (drop (unat l) rest))"
  by pat_completeness auto
termination
  by (relation "measure length") auto

definition tlv_values :: "bytes \<Rightarrow> int \<Rightarrow> bytes list" where
  "tlv_values payload t = map snd (filter (\<lambda>r. fst r = t) (tlv_records payload))"

definition uint32_be :: "bytes \<Rightarrow> int" where
  "uint32_be k =
     uint (k ! 0) * 2 ^ 24 + uint (k ! 1) * 2 ^ 16 + uint (k ! 2) * 2 ^ 8 + uint (k ! 3)"

subsection \<open>Sample parameters\<close>

text \<open>
  A token that is nothing but lower-case letters and digits comes back unchanged from
  both normalisers.  \<open>utf8_7bit\<close> decodes 7-bit input as UTF-8 does and refuses
  every other input; it serves in the concrete runs only.
\<close>

definition bare_token :: "string \<Rightarrow> string" where
  "bare_token s = s"

definition utf8_7bit :: "bytes \<Rightarrow> string option" where
  "utf8_7bit bs = (if list_all (\<lambda>b. b < 128) bs then Some (map (\<lambda>b. char_of (unat b)) bs) else None)"

text \<open>
  Sample tokens with their payloads: an address with identifier \<open>abc\<close>, one relay, an
  author and the kind 30000; the same address with a kind of two bytes; a profile with
  three relay values of which the second is not UTF-8; a profile with two public keys.
\<close>

definition sample_naddr :: string where
  "sample_naddr =
     ''naddr1qqpkzcnrqy8hwumn8ghj7u3wv4uxzmtsd3jsygqpqyqszqgpqyqszqgpqyqszqgpqyqszqgpqyqszqgpqyqszqgpqypsgqqqw5cqmun0ym''"

definition sample_naddr_payload :: bytes where
  "sample_naddr_payload =
     [0, 3, 97, 98, 99] @
     [1, 15, 119, 115, 115, 58, 47, 47, 114, 46, 101, 120, 97, 109, 112, 108, 101] @
     [2, 32] @ replicate 32 1 @ [3, 4, 0, 0, 117, 48]"

definition sample_naddr_short_kind :: string where
  "sample_naddr_short_kind =
     ''naddr1qqpkzcnrqgsqzqgpqyqszqgpqyqszqgpqyqszqgpqyqszqgpqyqszqgpqyqszqgrqf6nqkfrjna''"

definition sample_naddr_short_kind_payload :: bytes where
  "sample_naddr_short_kind_payload =
     [0, 3, 97, 98, 99] @ [2, 32] @ replicate 32 1 @ [3, 2, 117, 48]"

definition sample_nprofile :: string where
  "sample_nprofile =
     ''nprofile1qqsqzqgpqyqszqgpqyqszqgpqyqszqgpqyqszqgpqyqszqgpqyqszqgppamhxue69uhhytn90psk6urvv5qs9ll7qyrhwumn8ghj7csk45kh8''"

definition sample_nprofile_payload :: bytes where
  "sample_nprofile_payload =
     [0, 32] @ replicate 32 1 @
     [1, 15, 119, 115, 115, 58, 47, 47, 114, 46, 101, 120, 97, 109, 112, 108, 101] @
     [1, 2, 255, 254] @ [1, 7, 119, 115, 115, 58, 47, 47, 98]"

definition sample_nprofile_two_keys :: string where
  "sample_nprofile_two_keys =
     ''nprofile1qqsqzqgpqyqszqgpqyqszqgpqyqszqgpqyqszqgpqyqszqgpqyqszqgqyqpqyqszqgpqyqszqgpqyqszqgpqyqszqgpqyqszqgpqyqszqgpqy4qgvl9''"

definition sample_nprofile_two_keys_payload :: bytes where
  "sample_nprofile_two_keys_payload = [0, 32] @ replicate 32 1 @ [0, 32] @ replicate 32 2"

section \<open>Resolving an address through relays\<close>

text \<open>
  The filter \<^verbatim>\<open>Filter().author(..).kind(..).identifier(..).limit(..)\<close> by its four
  arguments, and the calls \<^verbatim>\<open>resolve_naddr_to_event_id\<close> makes on the relay client.
\<close>

record 'text nostr_filter =
  f_author :: string
  f_kind :: int
  f_identifier :: 'text
  f_limit :: nat

datatype 'text call =
    AddRelay 'text
  | Connect
  | FetchEvents "'text nostr_filter" int
  | Disconnect

text \<open>
  The relay SDK is a parameter.  Each field answers for the relays the client was given:
  \<open>sdk_connect\<close> is \<^verbatim>\<open>client.connect()\<close>, \<open>sdk_build_filter\<close> is the construction of
  the filter with \<^verbatim>\<open>PublicKey.parse\<close> and \<^verbatim>\<open>Kind\<close> (\<open>Some e\<close> when they raise), and
  \<open>sdk_fetch_events\<close> is \<^verbatim>\<open>client.fetch_events(f, timedelta(seconds=t))\<close> followed by
  the conversion to a list, given as the event ids in hex.  An exception of
  \<^verbatim>\<open>add_relay\<close> or \<^verbatim>\<open>disconnect\<close> is swallowed by the source.
\<close>

record 'text sdk =
  sdk_connect :: "'text list \<Rightarrow> error option"
  sdk_build_filter :: "'text nostr_filter \<Rightarrow> error option"
  sdk_fetch_events :: "'text list \<Rightarrow> 'text nostr_filter \<Rightarrow> int \<Rightarrow> error + string list"

definition resolve_naddr_to_event_id ::
  "(bytes \<Rightarrow> 'text option) \<Rightarrow> (string \<Rightarrow> string) \<Rightarrow> (string \<Rightarrow> string) \<Rightarrow> 'text sdk
     \<Rightarrow> string \<Rightarrow> 'text list \<Rightarrow> (error + string) \<times> 'text call list" where
  "resolve_naddr_to_event_id utf8_decode strip_wrappers find_candidate_token client naddr relay_urls =
     (case decode_naddr utf8_decode strip_wrappers find_candidate_token naddr of
        Inl e \<Rightarrow> (Inl e, [])
      | Inr (kind, pk_hex, ident, embedded_relays) \<Rightarrow>
          (let relays = (if embedded_relays \<noteq> [] then embedded_relays else relay_urls);
               tr = map AddRelay relays @ [Connect];
               f = \<lparr>f_author = pk_hex, f_kind = kind, f_identifier = ident, f_limit = 1\<rparr>
           in (case sdk_connect client relays of
                 Some e \<Rightarrow> (Inl e, tr @ [Disconnect])
               | None \<Rightarrow>
                   (case sdk_build_filter client f of
                      Some e \<Rightarrow> (Inl e, tr @ [Disconnect])
                    | None \<Rightarrow>
                        (case sdk_fetch_events client relays f 8 of
                           Inl e \<Rightarrow> (Inl e, tr @ [FetchEvents f 8, Disconnect])
                         | Inr events_list \<Rightarrow>
                             (case events_list of
                                [] \<Rightarrow> (Inl NoEventFound, tr @ [FetchEvents f 8, Disconnect])
                              | ev # _ \<Rightarrow> (Inr ev, tr @ [FetchEvents f 8, Disconnect])))))))"

definition added_relays :: "'text call list \<Rightarrow> 'text list" where
  "added_relays tr = concat (map (\<lambda>c. case c of AddRelay r \<Rightarrow> [r] | _ \<Rightarrow> []) tr)"

definition fetches :: "'text call list \<Rightarrow> ('text nostr_filter \<times> int) list" where
  "fetches tr = concat (map (\<lambda>c. case c of FetchEvents f t \<Rightarrow> [(f, t)] | _ \<Rightarrow> []) tr)"

definition connects :: "'text call list \<Rightarrow> nat" where
  "connects tr = length (filter (\<lambda>c. c = Connect) tr)"

text \<open>A sample client: it connects, and finds one event on the relay \<open>wss://r.example\<close> only.\<close>

definition sample_client :: "string sdk" where
  "sample_client =
     \<lparr>sdk_connect = (\<lambda>relays. None),
      sdk_build_filter = (\<lambda>f. None),
      sdk_fetch_events =
        (\<lambda>relays f t. if ''wss://r.example'' \<in> set relays then Inr [replicate 64 (CHR ''e'')]
                       else Inr [])\<rparr>"

section \<open>Probing relays for the minimal proof of work\<close>

text \<open>
  A parsed JSON document.  \<^verbatim>\<open>json.loads\<close> is a parameter, \<open>None\<close> when it raises;
  an object is the list of its members with distinct names.  A number with a fraction
  or an exponent is a \<open>JFloat\<close>; the probe only asks whether it is zero.
\<close>

datatype json =
    JNull
  | JBool bool
  | JInt int
  | JFloat rat
  | JStr string
  | JArr "json list"
  | JObj "(string \<times> json) list"

text \<open>Python's truth value of a parsed document, as \<^verbatim>\<open>or\<close> tests it.\<close>

fun truthy :: "json \<Rightarrow> bool" where
  "truthy JNull = False"
| "truthy (JBool b) = b"
| "truthy (JInt n) = (n \<noteq> 0)"
| "truthy (JFloat q) = (q \<noteq> 0)"
| "truthy (JStr s) = (s \<noteq> [])"
| "truthy (JArr xs) = (xs \<noteq> [])"
| "truthy (JObj kvs) = (kvs \<noteq> [])"

text \<open>
  \<^verbatim>\<open>x.get(k)\<close>: the member, \<^verbatim>\<open>None\<close> when there is none, \<^verbatim>\<open>AttributeError\<close> when
  \<open>x\<close> is not a dict.
\<close>

fun dict_get :: "json \<Rightarrow> string \<Rightarrow> error + json" where
  "dict_get (JObj kvs) k = Inr (case map_of kvs k of None \<Rightarrow> JNull | Some v \<Rightarrow> v)"
| "dict_get _ k = Inl AttributeError"

text \<open>
  \<^verbatim>\<open>isinstance(v, int)\<close> holds for the integers and, \<^verbatim>\<open>bool\<close> being a subclass of
  \<^verbatim>\<open>int\<close>, for the two truth values, which compare as 1 and 0.
\<close>

fun as_int :: "json \<Rightarrow> int option" where
  "as_int (JInt n) = Some n"
| "as_int (JBool b) = Some (if b then 1 else 0)"
| "as_int _ = None"

definition keys_to_check :: "string list" where
  "keys_to_check =
     [''min_pow_difficulty'', ''minPoW'', ''minPoWDifficulty'', ''pow'', ''pow_difficulty'',
      ''required_pow'', ''min_difficulty'', ''difficulty'']"

text \<open>\<^verbatim>\<open>lim = info.get("limitation") or info.get("limits") or {}\<close>.\<close>

definition limits_of :: "json \<Rightarrow> error + json" where
  "limits_of info =
     (case dict_get info ''limitation'' of
        Inl e \<Rightarrow> Inl e
      | Inr a \<Rightarrow>
          if truthy a then Inr a
          else
            (case dict_get info ''limits'' of
               Inl e \<Rightarrow> Inl e
             | Inr b \<Rightarrow> if truthy b then Inr b else Inr (JObj [])))"

text \<open>The loop \<^verbatim>\<open>for k in keys_to_check\<close> with its variable \<^verbatim>\<open>best\<close>; \<open>lim0\<close> is
  the source's \<^verbatim>\<open>lim\<close>.\<close>

fun best_loop :: "json \<Rightarrow> string list \<Rightarrow> int option \<Rightarrow> error + int option" where
  "best_loop lim0 [] best = Inr best"
| "best_loop lim0 (k # ks) best =
     (case dict_get lim0 k of
        Inl e \<Rightarrow> Inl e
      | Inr v \<Rightarrow>
          best_loop lim0 ks
            (case as_int v of
               Some n \<Rightarrow> (case best of None \<Rightarrow> Some n | Some b \<Rightarrow> Some (max b n))
             | None \<Rightarrow> best))"

record entry =
  url :: string
  reachable :: bool
  min_pow :: "int option"
  forced :: bool

text \<open>
  The parameters of the probe: \<open>convert_ws_to_http\<close> rests on \<^verbatim>\<open>urlparse\<close>;
  \<open>send u\<close> is the transport of \<^verbatim>\<open>http_request\<close> for the URL \<open>u\<close>; \<open>json_loads\<close> is
  \<^verbatim>\<open>resp.json()\<close>.  One pass of the loop over \<^verbatim>\<open>relay_urls\<close> returns the new
  \<^verbatim>\<open>max_pow\<close> and the entry it appends to \<^verbatim>\<open>diag\<close>; every path of the source
  appends the entry exactly once.
\<close>

definition probe_relay ::
  "(string \<Rightarrow> string option) \<Rightarrow> (string \<Rightarrow> nat \<Rightarrow> error + response) \<Rightarrow> (bytes \<Rightarrow> json option)
     \<Rightarrow> int \<Rightarrow> string \<Rightarrow> int \<times> entry" where
  "probe_relay convert_ws_to_http send json_loads max_pow rurl =
     (let entry = \<lparr>url = rurl, reachable = False, min_pow = None, forced = False\<rparr>
      in case convert_ws_to_http rurl of
           None \<Rightarrow> (max_pow, entry)
         | Some http \<Rightarrow>
             if http = [] then (max_pow, entry)
             else
               (case fst (http_request ''GET'' (send http) 3) of
                  Inl e \<Rightarrow> (max_pow, entry)
                | Inr resp \<Rightarrow>
                    if status_code resp \<noteq> 200 then (max_pow, entry)
                    else
                      (case (if content resp \<noteq> [] then json_loads (content resp)
                             else Some (JObj [])) of
                         None \<Rightarrow> (max_pow, entry)
                       | Some info \<Rightarrow>
                           (case limits_of info of
                              Inl e \<Rightarrow> (max_pow, entry)
                            | Inr lim0 \<Rightarrow>
                                (case best_loop lim0 keys_to_check None of
                                   Inl e \<Rightarrow> (max_pow, entry)
                                 | Inr best \<Rightarrow>
                                     (case best of
                                        Some b \<Rightarrow>
                                          (if b > max_pow then b else max_pow,
                                           entry\<lparr>reachable := True, min_pow := best\<rparr>)
                                      | None \<Rightarrow>
                                          (max_pow,
                                           entry\<lparr>reachable := True, min_pow := best\<rparr>)))))))"

fun probe_loop ::
  "(string \<Rightarrow> string option) \<Rightarrow> (string \<Rightarrow> nat \<Rightarrow> error + response) \<Rightarrow> (bytes \<Rightarrow> json option)
     \<Rightarrow> string list \<Rightarrow> int \<Rightarrow> entry list \<Rightarrow> int \<times> entry list" where
  "probe_loop convert_ws_to_http send json_loads [] max_pow diag = (max_pow, diag)"
| "probe_loop convert_ws_to_http send json_loads (rurl # relay_urls) max_pow diag =
     (case probe_relay convert_ws_to_http send json_loads max_pow rurl of
        (max_pow, entry) \<Rightarrow>
          probe_loop convert_ws_to_http send json_loads relay_urls max_pow (diag @ [entry]))"

definition fetch_relay_min_pow ::
  "(string \<Rightarrow> string option) \<Rightarrow> (string \<Rightarrow> nat \<Rightarrow> error + response) \<Rightarrow> (bytes \<Rightarrow> json option)
     \<Rightarrow> string list \<Rightarrow> int \<times> entry list" where
  "fetch_relay_min_pow convert_ws_to_http send json_loads relay_urls =
     (case probe_loop convert_ws_to_http send json_loads relay_urls 0 [] of
        (max_pow, diag) \<Rightarrow>
          (max_pow, map (\<lambda>e. e\<lparr>forced := (min_pow e = Some max_pow)\<rparr>) diag))"

text \<open>What the capability fetch for one relay URL yields.\<close>

definition capability_fetch ::
  "(string \<Rightarrow> string option) \<Rightarrow> (string \<Rightarrow> nat \<Rightarrow> error + response) \<Rightarrow> string
     \<Rightarrow> (error + response) option" where
  "capability_fetch convert_ws_to_http send rurl =
     (case convert_ws_to_http rurl of
        None \<Rightarrow> None
      | Some http \<Rightarrow> if http = [] then None else Some (fst (http_request ''GET'' (send http) 3)))"

text \<open>
  Sample parameters.  The relay \<open>a.example\<close> answers 200 with an empty body,
  \<open>b.example\<close> answers 404, \<open>d.example\<close> answers 204, \<open>e.example\<close> answers 500, and
  every other relay answers 200 with the document
  \<^verbatim>\<open>{"limitation": {"min_pow_difficulty": 15}}\<close>.  The answers reach the probe
  through \<open>urllib_urlopen\<close>.  \<open>sample_loads\<close> parses that one document and refuses
  every other input.
\<close>

definition sample_convert :: "string \<Rightarrow> string option" where
  "sample_convert u =
     (if startswith u ''wss://'' then Some (''https://'' @ drop 6 u) else None)"

definition sample_document :: bytes where
  "sample_document =
     [123, 34, 108, 105, 109, 105, 116, 97, 116, 105, 111, 110, 34, 58, 32, 123, 34, 109,
      105, 110, 95, 112, 111, 119, 95, 100, 105, 102, 102, 105, 99, 117, 108, 116, 121,
      34, 58, 32, 49, 53, 125, 125]"

definition sample_relay_wire :: "string \<Rightarrow> nat \<Rightarrow> error + response" where
  "sample_relay_wire u k =
     (if u = ''https://a.example'' then Inr \<lparr>status_code = 200, headers = [], content = []\<rparr>
      else if u = ''https://b.example'' then Inr \<lparr>status_code = 404, headers = [], content = []\<rparr>
      else if u = ''https://d.example'' then Inr \<lparr>status_code = 204, headers = [], content = []\<rparr>
      else if u = ''https://e.example'' then Inr \<lparr>status_code = 500, headers = [], content = []\<rparr>
      else Inr \<lparr>status_code = 200, headers = [], content = sample_document\<rparr>)"

definition sample_relay_send :: "string \<Rightarrow> nat \<Rightarrow> error + response" where
  "sample_relay_send u = urllib_urlopen (sample_relay_wire u)"

definition sample_loads :: "bytes \<Rightarrow> json option" where
  "sample_loads b =
     (if b = sample_document
      then Some (JObj [(''limitation'', JObj [(''min_pow_difficulty'', JInt 15)])])
      else None)"

text \<open>
  The report on one relay URL: what the pass writes into the entry, whatever
  \<^verbatim>\<open>max_pow\<close> was before.
\<close>

definition report ::
  "(string \<Rightarrow> string option) \<Rightarrow> (string \<Rightarrow> nat \<Rightarrow> error + response) \<Rightarrow> (bytes \<Rightarrow> json option)
     \<Rightarrow> string \<Rightarrow> entry" where
  "report convert_ws_to_http send json_loads rurl =
     snd (probe_relay convert_ws_to_http send json_loads 0 rurl)"

section \<open>Notions used in the proofs\<close>

text \<open>
  The invariant of the loop of \<^verbatim>\<open>_convertbits\<close> for the widths 5 and 8, after the
  words \<open>pre\<close> have been consumed.
\<close>

definition regroup_inv :: "int list \<Rightarrow> int \<Rightarrow> nat \<Rightarrow> int list \<Rightarrow> bool" where
  "regroup_inv pre acc bits ret \<longleftrightarrow>
     bits = (5 * length pre) mod 8 \<and> acc = take_bit 12 (bit_value pre)
     \<and> ret = octets ((5 * length pre) div 8) (drop_bit bits (bit_value pre))"

text \<open>
  The checksum register is a vector of 30 bits and one pass of \<^verbatim>\<open>_bech32_polymod\<close>
  is linear over exclusive or: \<open>feedback\<close> is what the five generator constants
  contribute, \<open>shift_step\<close> is the pass on the value 0.
\<close>

definition gen_term :: "nat \<Rightarrow> int \<Rightarrow> int" where
  "gen_term i chk = (if bit chk (25 + i) then GEN ! i else 0)"

definition feedback :: "int \<Rightarrow> int" where
  "feedback chk =
     gen_term 0 chk XOR gen_term 1 chk XOR gen_term 2 chk XOR gen_term 3 chk XOR gen_term 4 chk"

definition shift_step :: "int \<Rightarrow> int" where
  "shift_step chk = push_bit 5 (take_bit 25 chk) XOR feedback chk"

definition live :: "int \<Rightarrow> bool" where
  "live d \<longleftrightarrow> 0 \<le> d \<and> d < 2 ^ 30 \<and> d \<noteq> 0"

section \<open>Lemmas on the retry loop\<close>

lemma try_body_fails: "attempt_fails send k \<Longrightarrow> try_body send k = Inl (raised send k)"
  by (auto simp: attempt_fails_def try_body_def raised_def split: sum.splits)

lemma try_body_ok: "\<not> attempt_fails send k \<Longrightarrow> try_body send k = send k \<and> \<not> isl (send k)"
  by (auto simp: attempt_fails_def try_body_def split: sum.splits)

lemma backoff_delay_defined: "a < 1024 \<Longrightarrow> backoff_delay a = Inr (2 ^ a * (1 / 2))"
  by (simp add: backoff_delay_def)

lemma backoff_delay_overflow: "1024 \<le> a \<Longrightarrow> backoff_delay a = Inl OverflowError"
  by (simp add: backoff_delay_def)

lemma backoff_from_step:
  "a < m \<Longrightarrow> backoff_from a m = [Attempt a, Sleep (2 ^ a * (1 / 2))] @ backoff_from (Suc a) m"
  by (simp add: backoff_from_def upt_conv_Cons)

lemma http_loop_all_fail:
  assumes "\<forall>k. a \<le> k \<and> int k < n \<longrightarrow> attempt_fails send k" and "n \<le> 1024"
  shows "http_loop send n a last_exc tr =
     (Inl (if int a < n then raised send (nat n - 1)
           else (case last_exc of Some e \<Rightarrow> e | None \<Rightarrow> HttpRequestFailed)),
      tr @ backoff_from a (nat n))"
  using assms
proof (induction send n a last_exc tr rule: http_loop.induct)
  case (1 send n a last_exc tr)
  show ?case
  proof (cases "int a < n")
    case False
    then show ?thesis by (simp add: backoff_from_def)
  next
    case True
    with 1 have f: "try_body send a = Inl (raised send a)" by (simp add: try_body_fails)
    have d: "backoff_delay a = Inr (2 ^ a * (1 / 2))"
      using True 1(3) by (intro backoff_delay_defined) linarith
    have rest: "\<forall>k. a + 1 \<le> k \<and> int k < n \<longrightarrow> attempt_fails send k" using 1(2) by simp
    have ih: "http_loop send n (a + 1) (Some (raised send a))
        (tr @ [Attempt a, Sleep (2 ^ a * (1 / 2))]) =
      (Inl (if int (a + 1) < n then raised send (nat n - 1) else raised send a),
       (tr @ [Attempt a, Sleep (2 ^ a * (1 / 2))]) @ backoff_from (a + 1) (nat n))"
      using 1(1)[OF True f d rest 1(3)] by simp
    have last: "\<not> int (a + 1) < n \<Longrightarrow> nat n - 1 = a" using True by linarith
    have am: "a < nat n" using True by linarith
    show ?thesis
      apply (subst http_loop.simps)
      using True f d ih last backoff_from_step[OF am] by (auto simp del: http_loop.simps)
  qed
qed

lemma http_loop_first_ok:
  assumes "a \<le> k" "int k < n" "\<not> attempt_fails send k"
    and "\<forall>j. a \<le> j \<and> j < k \<longrightarrow> attempt_fails send j" and "k \<le> 1024"
  shows "http_loop send n a last_exc tr = (send k, tr @ backoff_from a k @ [Attempt k])"
  using assms
proof (induction send n a last_exc tr rule: http_loop.induct)
  case (1 send n a last_exc tr)
  have lt: "int a < n" using 1(2,3) by linarith
  show ?case
  proof (cases "a = k")
    case True
    then show ?thesis
      apply (subst http_loop.simps)
      using lt try_body_ok[OF 1(4)]
      by (auto simp: backoff_from_def split: sum.splits simp del: http_loop.simps)
  next
    case False
    then have ak: "a < k" using 1(2) by simp
    then have f: "try_body send a = Inl (raised send a)" using 1(5) by (simp add: try_body_fails)
    have d: "backoff_delay a = Inr (2 ^ a * (1 / 2))"
      using ak 1(6) by (intro backoff_delay_defined) linarith
    have rest: "\<forall>j. a + 1 \<le> j \<and> j < k \<longrightarrow> attempt_fails send j" using 1(5) by simp
    have ih: "http_loop send n (a + 1) (Some (raised send a))
        (tr @ [Attempt a, Sleep (2 ^ a * (1 / 2))]) =
      (send k, (tr @ [Attempt a, Sleep (2 ^ a * (1 / 2))]) @ backoff_from (a + 1) k @ [Attempt k])"
      using 1(1)[OF lt f d _ 1(3) 1(4) rest 1(6)] ak by simp
    show ?thesis
      apply (subst http_loop.simps)
      using lt f d ih backoff_from_step[OF ak] by (auto simp del: http_loop.simps)
  qed
qed

text \<open>Beyond 1024 passes the delay cannot be computed and the loop ends in \<open>OverflowError\<close>.\<close>

lemma http_loop_overflow:
  assumes "\<forall>k. a \<le> k \<and> k \<le> 1024 \<longrightarrow> attempt_fails send k" and "a \<le> 1024" and "1024 < n"
  shows "http_loop send n a last_exc tr =
     (Inl OverflowError, tr @ backoff_from a 1024 @ [Attempt 1024])"
  using assms
proof (induction send n a last_exc tr rule: http_loop.induct)
  case (1 send n a last_exc tr)
  have lt: "int a < n" using 1(3,4) by linarith
  have f: "try_body send a = Inl (raised send a)" using 1(2,3) by (simp add: try_body_fails)
  show ?case
  proof (cases "a = 1024")
    case True
    then have d: "backoff_delay a = Inl OverflowError" by (simp add: backoff_delay_overflow)
    show ?thesis
      apply (subst http_loop.simps)
      using lt f d True by (simp add: backoff_from_def del: http_loop.simps)
  next
    case False
    then have ak: "a < 1024" using 1(3) by simp
    have d: "backoff_delay a = Inr (2 ^ a * (1 / 2))" using ak by (rule backoff_delay_defined)
    have rest: "\<forall>k. a + 1 \<le> k \<and> k \<le> 1024 \<longrightarrow> attempt_fails send k" using 1(2) by simp
    have ih: "http_loop send n (a + 1) (Some (raised send a))
        (tr @ [Attempt a, Sleep (2 ^ a * (1 / 2))]) =
      (Inl OverflowError,
       (tr @ [Attempt a, Sleep (2 ^ a * (1 / 2))]) @ backoff_from (a + 1) 1024 @ [Attempt 1024])"
      using 1(1)[OF lt f d rest _ 1(4)] ak by simp
    show ?thesis
      apply (subst http_loop.simps)
      using lt f d ih backoff_from_step[OF ak] by (auto simp del: http_loop.simps)
  qed
qed

lemma find_upt_Some: "find P [0..<m] = Some k \<Longrightarrow> k < m \<and> P k \<and> (\<forall>j<k. \<not> P j)"
  by (auto simp: find_Some_iff)

lemma find_upt_None: "find P [0..<m] = None \<Longrightarrow> \<forall>k<m. \<not> P k"
  by (auto simp: find_None_iff)

lemma http_request_closed:
  assumes "upper method \<in> {''GET'', ''POST''}" and "n \<le> 1024"
  shows "http_request method send n =
     (case find (\<lambda>k. \<not> attempt_fails send k) [0..<nat n] of
        Some k \<Rightarrow> (send k, backoff_from 0 k @ [Attempt k])
      | None \<Rightarrow> (Inl (if 0 < n then raised send (nat n - 1) else HttpRequestFailed),
                 backoff_from 0 (nat n)))"
proof (cases "find (\<lambda>k. \<not> attempt_fails send k) [0..<nat n]")
  case None
  then have "\<forall>k. 0 \<le> k \<and> int k < n \<longrightarrow> attempt_fails send k"
    using find_upt_None[OF None] by auto
  from http_loop_all_fail[OF this assms(2), of None "[]"] None assms(1) show ?thesis
    by (simp add: http_request_def)
next
  case (Some k)
  from find_upt_Some[OF Some] have k: "int k < n" "\<not> attempt_fails send k"
    "\<forall>j. 0 \<le> j \<and> j < k \<longrightarrow> attempt_fails send j" by auto
  have k1024: "k \<le> 1024" using k(1) assms(2) by linarith
  from http_loop_first_ok[OF _ k k1024, of None "[]"] Some assms(1) show ?thesis
    by (simp add: http_request_def)
qed

lemma http_request_overflow:
  assumes "upper method \<in> {''GET'', ''POST''}" and "1024 < n"
    and "\<forall>k. k \<le> 1024 \<longrightarrow> attempt_fails send k"
  shows "http_request method send n =
     (Inl OverflowError, backoff_from 0 1024 @ [Attempt 1024])"
  using http_loop_overflow[of 0 send n None "[]"] assms by (simp add: http_request_def)

lemma sleeps_backoff: "sleeps (backoff_from 0 m) = map (\<lambda>k. 2 ^ k * (1 / 2)) [0..<m]"
  by (induction m) (simp_all add: backoff_from_def sleeps_def)

lemma sleeps_append: "sleeps (xs @ ys) = sleeps xs @ sleeps ys"
  by (simp add: sleeps_def)

lemma attempts_backoff: "attempts (backoff_from 0 m) = [0..<m]"
  by (induction m) (simp_all add: backoff_from_def attempts_def)

lemma sum_backoff:
  "sum_list (map (\<lambda>k. 2 ^ k * (1 / 2)) [0..<m]) = ((2 ^ m - 1) * (1 / 2) :: rat)"
  by (induction m) (simp_all add: algebra_simps)

lemma urllib_fails_iff:
  "attempt_fails (urllib_urlopen wire) k \<longleftrightarrow>
     (case wire k of Inl _ \<Rightarrow> True
      | Inr r \<Rightarrow> \<not> (200 \<le> status_code r \<and> status_code r < 300))"
  by (auto simp: attempt_fails_def urllib_urlopen_def split: sum.splits)

lemma urllib_raised:
  "wire k = Inr r \<Longrightarrow> \<not> (200 \<le> status_code r \<and> status_code r < 300) \<Longrightarrow>
   raised (urllib_urlopen wire) k = HTTPError (status_code r)"
  by (simp add: raised_def urllib_urlopen_def)

lemma upper_get: "upper ''GET'' \<in> {''GET'', ''POST''}"
  by (simp add: upper_def upper_char_def)

section \<open>Claims on the retrying request\<close>

text \<open>
  Claim C6, as amended.  For a GET or POST call with \<open>max_retries\<close> up to 1024,
  \<^verbatim>\<open>http_request\<close> runs passes \<open>0, 1, 2, \<dots>\<close> until the first pass that does not fail,
  where a pass fails when \<^verbatim>\<open>urlopen\<close> raises or the status of the response it returns
  is at least 500 or equals 429.  A response that \<^verbatim>\<open>urlopen\<close> returns with any other
  status is returned at once.  Before each further pass the call sleeps
  \<open>2 ^ attempt * 0.5\<close> seconds, \<open>attempt\<close> counting from 0.  Pass \<open>k + 1\<close> takes place
  exactly when pass \<open>k\<close> took place, failed and \<open>k + 1\<close> is below \<open>max_retries\<close>; there
  are at most \<open>max_retries\<close> passes.  When every pass fails the exception of the last
  pass is raised.  With urllib's \<^verbatim>\<open>urlopen\<close> a pass fails exactly when the network gives
  no answer or the answer has a status outside \<open>200..299\<close>: an answer 404 is an
  \<^verbatim>\<open>HTTPError\<close>, it is retried like every other exception, and a server that always
  answers 404 makes the call raise that \<^verbatim>\<open>HTTPError\<close> after \<open>max_retries\<close> passes.

  The claim as first stated has a 404 returned at once without a retry.  That holds
  of a stub that returns a response with the status 404, not of the program: the
  comment in the \<^verbatim>\<open>except\<close> clause of the source says that the statuses 4xx arrive
  there.
\<close>

theorem http_request_retry_policy:
  assumes "upper method \<in> {''GET'', ''POST''}" and "max_retries \<le> 1024"
  shows "http_request method send max_retries =
           (case find (\<lambda>k. \<not> attempt_fails send k) [0..<nat max_retries] of
              Some k \<Rightarrow> (send k, backoff_from 0 k @ [Attempt k])
            | None \<Rightarrow>
                (Inl (if 0 < max_retries then raised send (nat max_retries - 1)
                      else HttpRequestFailed),
                 backoff_from 0 (nat max_retries)))
         \<and> (\<forall>k. Suc k \<in> set (attempts (snd (http_request method send max_retries))) \<longleftrightarrow>
                k \<in> set (attempts (snd (http_request method send max_retries)))
                \<and> attempt_fails send k \<and> int (Suc k) < max_retries)
         \<and> length (attempts (snd (http_request method send max_retries))) \<le> nat max_retries
         \<and> (\<forall>wire k. attempt_fails (urllib_urlopen wire) k \<longleftrightarrow>
                (case wire k of
                   Inl e \<Rightarrow> True
                 | Inr r \<Rightarrow> \<not> (200 \<le> status_code r \<and> status_code r < 300)))
         \<and> (\<forall>wire. 0 < max_retries \<and> (\<forall>k. \<exists>r. wire k = Inr r \<and> status_code r = 404) \<longrightarrow>
                http_request method (urllib_urlopen wire) max_retries =
                  (Inl (HTTPError 404), backoff_from 0 (nat max_retries)))"
proof -
  note closed = http_request_closed[OF assms]
  have part1: "http_request method send max_retries =
           (case find (\<lambda>k. \<not> attempt_fails send k) [0..<nat max_retries] of
              Some k \<Rightarrow> (send k, backoff_from 0 k @ [Attempt k])
            | None \<Rightarrow>
                (Inl (if 0 < max_retries then raised send (nat max_retries - 1)
                      else HttpRequestFailed),
                 backoff_from 0 (nat max_retries)))"
    by (rule closed)
  have part23: "(\<forall>k. Suc k \<in> set (attempts (snd (http_request method send max_retries))) \<longleftrightarrow>
                k \<in> set (attempts (snd (http_request method send max_retries)))
                \<and> attempt_fails send k \<and> int (Suc k) < max_retries)
         \<and> length (attempts (snd (http_request method send max_retries))) \<le> nat max_retries"
  proof (cases "find (\<lambda>k. \<not> attempt_fails send k) [0..<nat max_retries]")
    case None
    have eq: "http_request method send max_retries =
        (Inl (if 0 < max_retries then raised send (nat max_retries - 1) else HttpRequestFailed),
         backoff_from 0 (nat max_retries))"
      using closed[of send] None by simp
    have all: "\<forall>k<nat max_retries. attempt_fails send k"
      using find_upt_None[OF None] by simp
    have att: "attempts (snd (http_request method send max_retries)) = [0..<nat max_retries]"
      by (simp add: eq attempts_backoff)
    show ?thesis
      unfolding att using all by auto
  next
    case (Some k)
    have eq: "http_request method send max_retries = (send k, backoff_from 0 k @ [Attempt k])"
      using closed[of send] Some by simp
    from find_upt_Some[OF Some] have k: "k < nat max_retries" "\<not> attempt_fails send k"
      "\<forall>j<k. attempt_fails send j" by auto
    have att: "attempts (snd (http_request method send max_retries)) = [0..<Suc k]"
      using attempts_backoff[of k] by (simp add: eq attempts_def)
    have iff: "\<forall>j. Suc j \<in> set [0..<Suc k] \<longleftrightarrow>
        j \<in> set [0..<Suc k] \<and> attempt_fails send j \<and> int (Suc j) < max_retries"
    proof
      fix j
      show "Suc j \<in> set [0..<Suc k] \<longleftrightarrow>
        j \<in> set [0..<Suc k] \<and> attempt_fails send j \<and> int (Suc j) < max_retries"
      proof (cases "j < k")
        case True
        then show ?thesis using k by auto
      next
        case False
        then show ?thesis using k by (cases "j = k") auto
      qed
    qed
    show ?thesis
      unfolding att using iff k(1) by simp
  qed
  have part4: "\<forall>wire k. attempt_fails (urllib_urlopen wire) k \<longleftrightarrow>
                (case wire k of
                   Inl e \<Rightarrow> True
                 | Inr r \<Rightarrow> \<not> (200 \<le> status_code r \<and> status_code r < 300))"
    by (simp add: urllib_fails_iff)
  have part5: "\<forall>wire. 0 < max_retries \<and> (\<forall>k. \<exists>r. wire k = Inr r \<and> status_code r = 404) \<longrightarrow>
                http_request method (urllib_urlopen wire) max_retries =
                  (Inl (HTTPError 404), backoff_from 0 (nat max_retries))"
  proof (intro allI impI)
    fix wire :: "nat \<Rightarrow> error + response"
    assume h: "0 < max_retries \<and> (\<forall>k. \<exists>r. wire k = Inr r \<and> status_code r = 404)"
    have fails: "attempt_fails (urllib_urlopen wire) k" for k
    proof -
      from h obtain r where "wire k = Inr r" "status_code r = 404" by blast
      then show ?thesis by (simp add: urllib_fails_iff)
    qed
    then have none: "find (\<lambda>k. \<not> attempt_fails (urllib_urlopen wire) k) [0..<nat max_retries] = None"
      by (simp add: find_None_iff)
    from h obtain r where "wire (nat max_retries - 1) = Inr r" "status_code r = 404" by blast
    then have "raised (urllib_urlopen wire) (nat max_retries - 1) = HTTPError 404"
      using urllib_raised[of wire "nat max_retries - 1" r] by simp
    then show "http_request method (urllib_urlopen wire) max_retries =
        (Inl (HTTPError 404), backoff_from 0 (nat max_retries))"
      using closed[of "urllib_urlopen wire"] none h by simp
  qed
  from part1 part23 part4 part5 show ?thesis by blast
qed

theorem http_request_retry_policy_witness:
  "upper ''GET'' \<in> {''GET'', ''POST''} \<and> (3::int) \<le> 1024
   \<and> http_request ''GET'' (urllib_urlopen sample_wire_flaky) 3 =
       (Inr \<lparr>status_code = 200, headers = [], content = [111, 107]\<rparr>,
        [Attempt 0, Sleep (1 / 2), Attempt 1, Sleep 1, Attempt 2])
   \<and> http_request ''GET'' sample_test_stub 3 =
       (Inr \<lparr>status_code = 200, headers = [],
             content = [123, 34, 111, 107, 34, 58, 32, 116, 114, 117, 101, 125]\<rparr>,
        [Attempt 0, Sleep (1 / 2), Attempt 1])
   \<and> http_request ''GET'' (urllib_urlopen sample_wire_404) 3 =
       (Inl (HTTPError 404), [Attempt 0, Sleep (1 / 2), Attempt 1, Sleep 1, Attempt 2, Sleep 2])"
proof -
  have le: "(3::int) \<le> 1024" by simp
  have f: "find (\<lambda>k. \<not> attempt_fails (urllib_urlopen sample_wire_flaky) k) [0..<nat 3] = Some 2"
    by (simp add: attempt_fails_def urllib_urlopen_def sample_wire_flaky_def upt_rec
        numeral_3_eq_3)
  have g: "find (\<lambda>k. \<not> attempt_fails sample_test_stub k) [0..<nat 3] = Some 1"
    by (simp add: attempt_fails_def sample_test_stub_def upt_rec numeral_3_eq_3)
  have b1: "backoff_from 0 1 = [Attempt 0, Sleep (1 / 2)]"
    by (simp add: backoff_from_def)
  have b2: "backoff_from 0 2 = [Attempt 0, Sleep (1 / 2), Attempt 1, Sleep 1]"
    by (simp add: backoff_from_def upt_rec numeral_2_eq_2)
  have b3: "backoff_from 0 3 =
      [Attempt 0, Sleep (1 / 2), Attempt 1, Sleep 1, Attempt 2, Sleep 2]"
    by (simp add: backoff_from_def upt_rec numeral_3_eq_3)
  have w: "\<forall>k. \<exists>r. sample_wire_404 k = Inr r \<and> status_code r = 404"
    by (simp add: sample_wire_404_def)
  have e1: "http_request ''GET'' (urllib_urlopen sample_wire_flaky) 3 =
       (Inr \<lparr>status_code = 200, headers = [], content = [111, 107]\<rparr>,
        [Attempt 0, Sleep (1 / 2), Attempt 1, Sleep 1, Attempt 2])"
    using http_request_retry_policy[OF upper_get le, of "urllib_urlopen sample_wire_flaky"] f b2
    by (simp add: urllib_urlopen_def sample_wire_flaky_def)
  have e2: "http_request ''GET'' sample_test_stub 3 =
       (Inr \<lparr>status_code = 200, headers = [],
             content = [123, 34, 111, 107, 34, 58, 32, 116, 114, 117, 101, 125]\<rparr>,
        [Attempt 0, Sleep (1 / 2), Attempt 1])"
    using http_request_retry_policy[OF upper_get le, of sample_test_stub] g b1
    by (simp add: sample_test_stub_def)
  from http_request_retry_policy[OF upper_get le, of sample_test_stub]
  have "(0::int) < 3 \<and> (\<forall>k. \<exists>r. sample_wire_404 k = Inr r \<and> status_code r = 404) \<longrightarrow>
      http_request ''GET'' (urllib_urlopen sample_wire_404) 3 =
        (Inl (HTTPError 404), backoff_from 0 (nat 3))"
    by blast
  with w have e3: "http_request ''GET'' (urllib_urlopen sample_wire_404) 3 =
       (Inl (HTTPError 404), [Attempt 0, Sleep (1 / 2), Attempt 1, Sleep 1, Attempt 2, Sleep 2])"
    by (simp add: b3)
  show ?thesis using upper_get le e1 e2 e3 by blast
qed

theorem http_request_404_counterexample:
  "sample_wire_404 0 = Inr \<lparr>status_code = 404, headers = [], content = []\<rparr>
   \<and> sample_wire_404 1 = Inr \<lparr>status_code = 404, headers = [], content = []\<rparr>
   \<and> sample_wire_404 2 = Inr \<lparr>status_code = 404, headers = [], content = []\<rparr>
   \<and> http_request ''GET'' (urllib_urlopen sample_wire_404) 3 =
       (Inl (HTTPError 404), [Attempt 0, Sleep (1 / 2), Attempt 1, Sleep 1, Attempt 2, Sleep 2])"
  by code_simp

text \<open>
  Claim C10, as amended.  When every pass of a GET or POST call with \<open>max_retries\<close>
  between 1 and 1024 fails, the sleep of \<open>2 ^ attempt * 0.5\<close> seconds follows every
  failed pass, the last one included: the call sleeps \<open>max_retries\<close> times,
  \<open>0.5 * (2 ^ max_retries - 1)\<close> seconds in total, and the last thing it does before
  raising the exception of the last pass is the sleep of \<open>2 ^ (max_retries - 1) * 0.5\<close>
  seconds.

  The claim as first stated has no bound on \<open>max_retries\<close>.  From \<^verbatim>\<open>attempt == 1024\<close> on
  the delay \<^verbatim>\<open>(2 ** attempt) * 0.5\<close> is not a float: a call with \<open>max_retries = 1025\<close>
  whose passes all fail sleeps 1024 times and raises \<^verbatim>\<open>OverflowError\<close> in place of the
  exception of its last pass.
\<close>

theorem http_request_sleeps_after_last_failure:
  assumes "upper method \<in> {''GET'', ''POST''}"
    and "0 < max_retries" and "max_retries \<le> 1024"
    and "\<forall>k. int k < max_retries \<longrightarrow> attempt_fails send k"
  shows "http_request method send max_retries =
           (Inl (raised send (nat max_retries - 1)), backoff_from 0 (nat max_retries))
         \<and> sleeps (snd (http_request method send max_retries)) =
             map (\<lambda>k. 2 ^ k * (1 / 2)) [0..<nat max_retries]
         \<and> length (sleeps (snd (http_request method send max_retries))) = nat max_retries
         \<and> sum_list (sleeps (snd (http_request method send max_retries))) =
             (2 ^ nat max_retries - 1) * (1 / 2)
         \<and> last (snd (http_request method send max_retries)) =
             Sleep (2 ^ (nat max_retries - 1) * (1 / 2))"
proof -
  have none: "find (\<lambda>k. \<not> attempt_fails send k) [0..<nat max_retries] = None"
    using assms(4) by (auto simp: find_None_iff)
  have eq: "http_request method send max_retries =
      (Inl (raised send (nat max_retries - 1)), backoff_from 0 (nat max_retries))"
    using http_request_closed[OF assms(1,3), of send] none assms(2) by simp
  obtain m where m: "nat max_retries = Suc m" using assms(2) by (cases "nat max_retries") auto
  have tr: "snd (http_request method send max_retries) = backoff_from 0 (nat max_retries)"
    by (simp add: eq)
  have l: "last (backoff_from 0 (nat max_retries)) = Sleep (2 ^ (nat max_retries - 1) * (1 / 2))"
    unfolding m by (simp add: backoff_from_def)
  have s: "sleeps (backoff_from 0 (nat max_retries)) = map (\<lambda>k. 2 ^ k * (1 / 2)) [0..<nat max_retries]"
    by (rule sleeps_backoff)
  have len: "length (sleeps (backoff_from 0 (nat max_retries))) = nat max_retries"
    unfolding s by simp
  have tot: "sum_list (sleeps (backoff_from 0 (nat max_retries))) = (2 ^ nat max_retries - 1) * (1 / 2)"
    unfolding s by (rule sum_backoff)
  show ?thesis
    unfolding tr using eq l s len tot by blast
qed

theorem http_request_sleeps_after_last_failure_witness:
  "upper ''GET'' \<in> {''GET'', ''POST''} \<and> (0::int) < 3 \<and> (3::int) \<le> 1024
   \<and> attempt_fails (urllib_urlopen sample_wire_down) 0
   \<and> attempt_fails (urllib_urlopen sample_wire_down) 1
   \<and> attempt_fails (urllib_urlopen sample_wire_down) 2
   \<and> http_request ''GET'' (urllib_urlopen sample_wire_down) 3 =
       (Inl (TransportError ''connection refused''),
        [Attempt 0, Sleep (1 / 2), Attempt 1, Sleep 1, Attempt 2, Sleep 2])
   \<and> sum_list (sleeps (snd (http_request ''GET'' (urllib_urlopen sample_wire_down) 3))) = 7 / 2"
proof -
  have a: "\<forall>k. int k < 3 \<longrightarrow> attempt_fails (urllib_urlopen sample_wire_down) k"
    by (simp add: attempt_fails_def urllib_urlopen_def sample_wire_down_def)
  have b: "backoff_from 0 3 = [Attempt 0, Sleep (1 / 2), Attempt 1, Sleep 1, Attempt 2, Sleep 2]"
    by (simp add: backoff_from_def upt_rec numeral_3_eq_3)
  have p: "(0::int) < 3" and q: "(3::int) \<le> 1024" by simp_all
  show ?thesis
    using http_request_sleeps_after_last_failure[OF upper_get p q a] a b upper_get
    by (simp add: raised_def urllib_urlopen_def sample_wire_down_def sleeps_def)
qed

theorem http_request_overflow_counterexample:
  "http_request ''GET'' (urllib_urlopen sample_wire_down) 1025 =
     (Inl OverflowError, backoff_from 0 1024 @ [Attempt 1024])
   \<and> length (sleeps (snd (http_request ''GET'' (urllib_urlopen sample_wire_down) 1025))) = 1024
   \<and> raised (urllib_urlopen sample_wire_down) 1024 = TransportError ''connection refused''"
proof -
  have f: "\<forall>k. k \<le> 1024 \<longrightarrow> attempt_fails (urllib_urlopen sample_wire_down) k"
    by (simp add: attempt_fails_def urllib_urlopen_def sample_wire_down_def)
  have lt: "(1024::int) < 1025" by simp
  have eq: "http_request ''GET'' (urllib_urlopen sample_wire_down) 1025 =
      (Inl OverflowError, backoff_from 0 1024 @ [Attempt 1024])"
    by (rule http_request_overflow[OF upper_get lt f])
  have one: "sleeps [Attempt 1024] = []" by (simp add: sleeps_def)
  have len: "length (sleeps (backoff_from 0 1024 @ [Attempt 1024])) = 1024"
    unfolding sleeps_append sleeps_backoff one by simp
  have r: "raised (urllib_urlopen sample_wire_down) 1024 = TransportError ''connection refused''"
    by (simp add: raised_def urllib_urlopen_def sample_wire_down_def)
  show ?thesis using eq len r by simp
qed

section \<open>Lemmas on the codec\<close>

subsection \<open>Case and separator\<close>

lemma lower_char_eq_iff: "lower_char c = c \<longleftrightarrow> \<not> is_upper_letter c"
  by (auto simp: lower_char_def is_upper_letter_def Let_def
      dest: arg_cong[where f="of_char :: char \<Rightarrow> nat"])

lemma upper_char_eq_iff: "upper_char c = c \<longleftrightarrow> \<not> is_lower_letter c"
  by (auto simp: upper_char_def is_lower_letter_def Let_def
      dest!: arg_cong[where f="of_char :: char \<Rightarrow> nat"])

lemma map_neq_iff: "map f s \<noteq> s \<longleftrightarrow> (\<exists>c\<in>set s. f c \<noteq> c)"
  by (induction s) auto

lemma mixes_case_iff: "lower s \<noteq> s \<and> upper s \<noteq> s \<longleftrightarrow> mixes_case s"
  by (simp add: lower_def upper_def map_neq_iff mixes_case_def lower_char_eq_iff upper_char_eq_iff)

lemma rfind_unique: "c \<notin> set suf \<Longrightarrow> rfind (pre @ c # suf) c = int (length pre)"
proof -
  assume a: "c \<notin> set suf"
  have "takeWhile (\<lambda>x. x \<noteq> c) (rev suf @ c # rev pre) = rev suf"
    using a by (subst takeWhile_append2) auto
  then show ?thesis by (simp add: rfind_def)
qed

lemma rfind_split:
  "c \<in> set s \<Longrightarrow> \<exists>pre suf. s = pre @ c # suf \<and> c \<notin> set suf \<and> rfind s c = int (length pre)"
  using split_list_last[of c s] rfind_unique by fastforce

lemma rfind_absent: "c \<notin> set s \<Longrightarrow> rfind s c = - 1"
  by (simp add: rfind_def)

subsection \<open>The alphabet\<close>

lemma those_map:
  "those (map f xs) = (if \<forall>x\<in>set xs. f x \<noteq> None then Some (map (\<lambda>x. the (f x)) xs) else None)"
  by (induction xs) (auto split: option.splits)

lemma charset_map_eq:
  "BECH32_CHARSET_MAP c = (if c \<in> set BECH32_CHARSET then Some (symbol_value c) else None)"
  by (simp add: BECH32_CHARSET_MAP_def BECH32_CHARSET_def symbol_value_def enumerate_eq_zip upt_rec)

lemma symbol_value_range: "c \<in> set BECH32_CHARSET \<Longrightarrow> 0 \<le> symbol_value c \<and> symbol_value c < 32"
  by (auto simp add: BECH32_CHARSET_def symbol_value_def)

lemma words_of_data:
  "those (map BECH32_CHARSET_MAP d) =
     (if \<exists>c\<in>set d. c \<notin> set BECH32_CHARSET then None else Some (map symbol_value d))"
  by (auto simp: those_map charset_map_eq)

subsection \<open>Regrouping five-bit words into octets\<close>

lemma and_255_le: "\<not> 255 < (x::int) AND 255"
  by (simp add: not_less)

lemma while_8:
  "bits < 16 \<Longrightarrow>
   convertbits_while 8 255 acc bits ret =
     Some (Inr (if 8 \<le> bits then (bits - 8, ret @ [drop_bit (bits - 8) acc AND 255])
                else (bits, ret)))"
  apply (subst convertbits_while.simps)
  apply (subst convertbits_while.simps)
  by (auto simp: Let_def and_255_le)

lemma and_255: "(x::int) AND 255 = take_bit 8 x"
  by (simp add: take_bit_eq_mask mask_eq_exp_minus_1)

lemma and_4095: "(x::int) AND 4095 = take_bit 12 x"
  by (simp add: take_bit_eq_mask mask_eq_exp_minus_1)

lemma push_or_word:
  assumes "0 \<le> w" "w < 32"
  shows "push_bit 5 (a::int) OR w = a * 32 + w"
proof -
  have w: "take_bit 5 w = w" using assms by (simp add: take_bit_int_eq_self)
  have "push_bit 5 a OR take_bit 5 w = take_bit 5 w + push_bit 5 a"
    using concat_bit_eq[of 5 w a] by (simp add: concat_bit_def or.commute)
  then show ?thesis by (simp add: w push_bit_eq_mult)
qed

lemma bit_value_snoc: "bit_value (ws @ [w]) = bit_value ws * 32 + w"
  by (simp add: bit_value_def)

lemma drop_bit_snoc:
  assumes "0 \<le> w" "w < 32"
  shows "drop_bit (k + 5) (n * 32 + w) = drop_bit k (n::int)"
proof -
  have "(n * 32 + w) div 32 = n" using assms by simp
  then have "drop_bit 5 (n * 32 + w) = n" by (simp add: drop_bit_eq_div)
  then show ?thesis
    by (metis drop_bit_drop_bit)
qed

lemma count_no_carry:
  fixes t :: nat
  assumes "b = t mod c" "b + k < c"
  shows "(t + k) mod c = b + k \<and> (t + k) div c = t div c"
proof -
  have e: "t + k = (b + k) + (t div c) * c"
    using assms(1) by simp
  have c: "0 < c" using assms(2) by simp
  show ?thesis unfolding e using assms(2) c by simp
qed

lemma count_carry:
  fixes t :: nat
  assumes "b = t mod c" "c \<le> b + k" "b + k < c + c"
  shows "(t + k) mod c = b + k - c \<and> (t + k) div c = Suc (t div c)"
proof -
  have "t + k = (b + k) + (t div c) * c"
    using assms(1) by simp
  also have "b + k = (b + k - c) + c" using assms(2) by simp
  finally have e: "t + k = (b + k - c) + Suc (t div c) * c" by simp
  have c: "0 < c" "b + k - c < c" using assms(2,3) by simp_all
  show ?thesis unfolding e using c by (simp del: mult_Suc)
qed

lemma mod_shift_in: "((n::int) mod 4096 * 32 + w) mod 4096 = (n * 32 + w) mod 4096"
  by (rule mod_add_cong) (simp_all add: mod_mult_left_eq)

lemma regroup_step:
  assumes inv: "regroup_inv pre acc bits ret" and w: "0 \<le> w" "w < 32"
  shows "\<exists>bits' ret'.
           convertbits_while 8 255 ((push_bit 5 acc OR w) AND 4095) (bits + 5) ret =
             Some (Inr (bits', ret'))
           \<and> regroup_inv (pre @ [w]) ((push_bit 5 acc OR w) AND 4095) bits' ret'"
proof -
  let ?N = "bit_value pre"
  let ?N' = "?N * 32 + w"
  let ?acc = "(push_bit 5 acc OR w) AND 4095"
  from inv have b: "bits = (5 * length pre) mod 8" and a: "acc = take_bit 12 ?N"
    and r: "ret = octets ((5 * length pre) div 8) (drop_bit bits ?N)"
    by (simp_all add: regroup_inv_def)
  have b8: "bits < 8" using b by simp
  have "(?N mod 4096 * 32 + w) mod 4096 = ?N' mod 4096"
    by (rule mod_shift_in)
  then have acc: "?acc = take_bit 12 ?N'"
    using w by (simp add: push_or_word and_4095 a take_bit_eq_mod)
  have wh: "convertbits_while 8 255 ?acc (bits + 5) ret =
     Some (Inr (if 8 \<le> bits + 5 then (bits + 5 - 8, ret @ [drop_bit (bits + 5 - 8) ?acc AND 255])
                else (bits + 5, ret)))"
    using b8 by (intro while_8) simp
  show ?thesis
  proof (cases "8 \<le> bits + 5")
    case False
    have m: "(5 * length (pre @ [w])) mod 8 = bits + 5" "(5 * length (pre @ [w])) div 8 = (5 * length pre) div 8"
      using count_no_carry[OF b, of 5] False by (simp_all add: add.commute)
    have "regroup_inv (pre @ [w]) ?acc (bits + 5) ret"
      unfolding regroup_inv_def m bit_value_snoc
      using acc r drop_bit_snoc[OF w, of bits ?N] by simp
    with wh False show ?thesis by simp
  next
    case True
    have m: "(5 * length (pre @ [w])) mod 8 = bits + 5 - 8" "(5 * length (pre @ [w])) div 8 = Suc ((5 * length pre) div 8)"
      using count_carry[OF b, of 5] True b8 by (simp_all add: add.commute)
    have k: "bits + 5 - 8 + 8 = bits + 5" using True by simp
    have hi: "drop_bit (bits + 5 - 8) ?N' div 256 = drop_bit bits ?N"
    proof -
      have "drop_bit (bits + 5 - 8) ?N' div 256 = drop_bit 8 (drop_bit (bits + 5 - 8) ?N')"
        by (simp add: drop_bit_eq_div)
      also have "\<dots> = drop_bit (8 + (bits + 5 - 8)) ?N'"
        by (rule drop_bit_drop_bit)
      also have "\<dots> = drop_bit (bits + 5) ?N'"
        using True by (simp only: le_add_diff_inverse)
      also have "\<dots> = drop_bit bits ?N" by (rule drop_bit_snoc[OF w])
      finally show ?thesis .
    qed
    have lo: "drop_bit (bits + 5 - 8) ?acc AND 255 = drop_bit (bits + 5 - 8) ?N' mod 256"
    proof -
      have "min 8 (12 - (bits + 5 - 8)) = 8" using b8 True by simp
      then have "take_bit 8 (drop_bit (bits + 5 - 8) (take_bit 12 ?N')) = take_bit 8 (drop_bit (bits + 5 - 8) ?N')"
        by (simp add: drop_bit_take_bit)
      then show ?thesis by (simp add: acc and_255 take_bit_eq_mod)
    qed
    have "regroup_inv (pre @ [w]) ?acc (bits + 5 - 8) (ret @ [drop_bit (bits + 5 - 8) ?acc AND 255])"
      unfolding regroup_inv_def m bit_value_snoc
      using acc r hi lo by simp
    with wh True show ?thesis by simp
  qed
qed

lemma regroup_loop:
  assumes "regroup_inv pre acc bits ret" and "\<forall>w\<in>set ws. 0 \<le> w \<and> w < 32"
  shows "\<exists>acc' bits' ret'.
           convertbits_for 5 8 255 4095 ws acc bits ret = Some (Inr (Some (acc', bits', ret')))
           \<and> regroup_inv (pre @ ws) acc' bits' ret'"
  using assms
proof (induction ws arbitrary: pre acc bits ret)
  case Nil
  then show ?case by simp
next
  case (Cons w ws)
  from Cons.prems have w: "0 \<le> w" "w < 32" by simp_all
  from regroup_step[OF Cons.prems(1) w] obtain bits' ret' where
    wh: "convertbits_while 8 255 ((push_bit 5 acc OR w) AND 4095) (bits + 5) ret = Some (Inr (bits', ret'))"
    and inv: "regroup_inv (pre @ [w]) ((push_bit 5 acc OR w) AND 4095) bits' ret'"
    by blast
  have d: "drop_bit 5 w = 0" using w by (simp add: drop_bit_eq_div)
  from Cons.IH[OF inv] Cons.prems(2) obtain acc'' bits'' ret'' where
    "convertbits_for 5 8 255 4095 ws ((push_bit 5 acc OR w) AND 4095) bits' ret' = Some (Inr (Some (acc'', bits'', ret'')))"
    "regroup_inv ((pre @ [w]) @ ws) acc'' bits'' ret''" by auto
  then show ?case using w d wh by (simp add: Let_def)
qed

lemma remainder_test:
  assumes "bits < 8"
  shows "push_bit (8 - bits) (take_bit 12 n) AND 255 \<noteq> 0 \<longleftrightarrow> (n::int) mod 2 ^ bits \<noteq> 0"
proof -
  have "take_bit 8 (push_bit (8 - bits) (take_bit 12 n)) = push_bit (8 - bits) (take_bit bits (take_bit 12 n))"
    using assms by (simp add: take_bit_push_bit)
  also have "take_bit bits (take_bit 12 n) = take_bit bits n"
    using assms by simp
  finally show ?thesis by (simp add: and_255 take_bit_eq_mod)
qed

lemma convertbits_5_8:
  assumes "\<forall>w\<in>set ws. 0 \<le> w \<and> w < 32"
  shows "convertbits ws 5 8 False =
           Some (Inr (if bad_remainder ws then None else Some (regroup ws)))"
proof -
  have i0: "regroup_inv [] 0 0 []" by (simp add: regroup_inv_def bit_value_def)
  from regroup_loop[OF i0 assms] obtain acc bits ret where
    run: "convertbits_for 5 8 255 4095 ws 0 0 [] = Some (Inr (Some (acc, bits, ret)))"
    and inv: "regroup_inv ws acc bits ret" by auto
  from inv have b: "bits = remainder_bits ws" and a: "acc = take_bit 12 (bit_value ws)"
    and r: "map of_int ret = regroup ws"
    by (simp_all add: regroup_inv_def remainder_bits_def regroup_def drop_bit_eq_div)
  have b8: "bits < 8" using b by (simp add: remainder_bits_def)
  have t: "(5 \<le> bits \<or> push_bit (8 - bits) acc AND 255 \<noteq> 0) \<longleftrightarrow> bad_remainder ws"
    unfolding a remainder_test[OF b8] by (simp add: bad_remainder_def b)
  show ?thesis
    using run t r by (simp add: convertbits_def Let_def)
qed

subsection \<open>The decoder, step by step\<close>

lemma length_lower [simp]: "length (lower s) = length s"
  by (simp add: lower_def)

lemma decode_to_words_eq:
  "bech32_decode_to_words s =
     (if mixes_case s \<or> unprintable s \<or> separator_misplaced s \<or> foreign_symbol s
         \<or> checksum_fails s
      then None else Some (prefix_part s, payload_words s))"
proof -
  have sep: "(rfind (lower s) (CHR ''1'') < 1 \<or> rfind (lower s) (CHR ''1'') + 7 > int (length (lower s)))
      \<longleftrightarrow> separator_misplaced s"
    by (auto simp: separator_misplaced_def separator_def)
  show ?thesis
    unfolding bech32_decode_to_words_def Let_def mixes_case_iff sep words_of_data
    by (auto simp: unprintable_def foreign_symbol_def data_part_def separator_def
        checksum_fails_def bech32_verify_checksum_def prefix_part_def data_words_def
        payload_words_def)
qed

lemma payload_words_range:
  assumes "\<not> foreign_symbol s"
  shows "\<forall>w\<in>set (payload_words s). 0 \<le> w \<and> w < 32"
proof
  fix w assume "w \<in> set (payload_words s)"
  then have "w \<in> set (data_words s)"
    unfolding payload_words_def by (rule in_set_takeD)
  then obtain c where "c \<in> set (data_part s)" "w = symbol_value c"
    by (auto simp: data_words_def)
  with assms show "0 \<le> w \<and> w < 32"
    using symbol_value_range[of c] by (auto simp: foreign_symbol_def)
qed

lemma nip19_payload_eq:
  "nip19_payload s =
     (if mixes_case s \<or> unprintable s \<or> separator_misplaced s \<or> foreign_symbol s
         \<or> checksum_fails s
      then Inl InvalidBech32String
      else if bad_remainder (payload_words s) then Inl InvalidPayloadConversion
      else Inr (prefix_part s, regroup (payload_words s)))"
proof (cases "foreign_symbol s")
  case True
  then show ?thesis by (simp add: nip19_payload_def decode_to_words_eq)
next
  case False
  from convertbits_5_8[OF payload_words_range[OF False]] show ?thesis
    by (simp add: nip19_payload_def decode_to_words_eq)
qed

subsection \<open>The checksum is linear\<close>

lemma bit_255: "bit (255::int) i \<longleftrightarrow> i < 8"
proof -
  have "(255::int) = mask 8" by (simp add: mask_eq_exp_minus_1)
  then show ?thesis by (simp only: bit_mask_iff) simp
qed

lemma generator_test:
  "i < 8 \<Longrightarrow> (drop_bit i (drop_bit 25 chk AND 255) AND 1 \<noteq> 0) = bit (chk::int) (25 + i)"
proof -
  assume i: "i < 8"
  have "bit (drop_bit 25 chk AND 255) i = bit chk (25 + i)"
    using i by (simp only: bit_and_iff bit_drop_bit_eq bit_255) simp
  then show ?thesis
    by (simp only: and_one_eq bit_iff_odd_drop_bit odd_iff_mod_2_eq_one) simp
qed

lemma generator_choice:
  "i < 8 \<Longrightarrow>
   (if drop_bit i (drop_bit 25 chk AND 255) AND 1 \<noteq> 0 then GEN ! i else 0) = gen_term i chk"
  by (simp only: generator_test gen_term_def)

lemma and_m25: "(x::int) AND 0x1FFFFFF = take_bit 25 x"
  by (simp add: take_bit_eq_mask mask_eq_exp_minus_1)

lemma polymod_step_eq: "polymod_step chk v = shift_step chk XOR v"
proof -
  have l: "[0..<5] = [0, 1, 2, 3, 4]" by (simp add: upt_rec)
  have "polymod_step chk v =
      push_bit 5 (take_bit 25 chk) XOR v XOR gen_term 0 chk XOR gen_term 1 chk
        XOR gen_term 2 chk XOR gen_term 3 chk XOR gen_term 4 chk"
    unfolding polymod_step_def Let_def l and_m25
    by (simp only: fold_simps comp_apply id_apply generator_choice[of 0] generator_choice[of 1]
        generator_choice[of 2] generator_choice[of 3] generator_choice[of 4]) (simp add: xor.assoc)
  then show ?thesis
    by (simp only: shift_step_def feedback_def ac_simps)
qed

lemma gen_term_xor: "gen_term i (a XOR d) = gen_term i a XOR gen_term i d"
  by (simp add: gen_term_def bit_xor_iff)

lemma feedback_xor: "feedback (a XOR d) = feedback a XOR feedback d"
  by (simp add: feedback_def gen_term_xor ac_simps)

lemma shift_step_xor: "shift_step (a XOR d) = shift_step a XOR shift_step d"
  by (simp add: shift_step_def feedback_xor ac_simps)

lemma polymod_step_xor: "polymod_step (a XOR d) v = polymod_step a v XOR shift_step d"
  by (simp add: polymod_step_eq shift_step_xor ac_simps)


subsection \<open>The shift never loses a difference\<close>

lemma gen_term_low:
  "take_bit 5 (gen_term 0 d) = (if bit d 25 then 18 else 0)"
  "take_bit 5 (gen_term 1 d) = (if bit d 26 then 13 else 0)"
  "take_bit 5 (gen_term 2 d) = (if bit d 27 then 26 else 0)"
  "take_bit 5 (gen_term 3 d) = (if bit d 28 then 29 else 0)"
  "take_bit 5 (gen_term 4 d) = (if bit d 29 then 19 else 0)"
  by (simp_all add: gen_term_def GEN_def)

lemma gen_term_30:
  "take_bit 30 (gen_term 0 d) = gen_term 0 d"
  "take_bit 30 (gen_term 1 d) = gen_term 1 d"
  "take_bit 30 (gen_term 2 d) = gen_term 2 d"
  "take_bit 30 (gen_term 3 d) = gen_term 3 d"
  "take_bit 30 (gen_term 4 d) = gen_term 4 d"
  by (simp_all add: gen_term_def GEN_def)

lemma feedback_30: "take_bit 30 (feedback d) = feedback d"
  unfolding feedback_def take_bit_xor gen_term_30 by (rule refl)

lemma shift_step_30: "take_bit 30 (shift_step d) = shift_step d"
  by (simp add: shift_step_def feedback_30 take_bit_push_bit)

lemma shift_step_range: "0 \<le> shift_step d \<and> shift_step d < 2 ^ 30"
  using shift_step_30[of d] by (simp only: take_bit_int_eq_self_iff)

lemma feedback_low_zero:
  assumes "take_bit 5 (feedback d) = 0"
  shows "\<not> bit d 25 \<and> \<not> bit d 26 \<and> \<not> bit d 27 \<and> \<not> bit d 28 \<and> \<not> bit d 29"
  using assms unfolding feedback_def take_bit_xor gen_term_low
  by (simp split: if_splits)

lemma shift_step_zero:
  assumes r: "0 \<le> d" "d < 2 ^ 30" and z: "shift_step d = 0"
  shows "d = 0"
proof -
  have "take_bit 5 (shift_step d) = take_bit 5 (feedback d)"
    by (simp add: shift_step_def take_bit_push_bit)
  with z have "take_bit 5 (feedback d) = 0" by simp
  from feedback_low_zero[OF this]
  have hi: "\<not> bit d 25" "\<not> bit d 26" "\<not> bit d 27" "\<not> bit d 28" "\<not> bit d 29" by simp_all
  then have "feedback d = 0" by (simp add: feedback_def gen_term_def)
  with z have lo: "take_bit 25 d = 0" by (simp add: shift_step_def)
  have t: "take_bit 30 d = d" using r by (simp add: take_bit_int_eq_self)
  have "\<not> bit d n" for n
  proof (cases "n < 25")
    case True
    have "bit (take_bit 25 d) n = (n < 25 \<and> bit d n)" by (rule bit_take_bit_iff)
    with lo True show ?thesis by simp
  next
    case False
    show ?thesis
    proof (cases "n < 30")
      case True
      with False have "n = 25 \<or> n = 26 \<or> n = 27 \<or> n = 28 \<or> n = 29" by arith
      with hi show ?thesis by auto
    next
      case False
      have "bit (take_bit 30 d) n = (n < 30 \<and> bit d n)" by (rule bit_take_bit_iff)
      with False t show ?thesis by simp
    qed
  qed
  then show ?thesis by (simp add: bit_eq_iff)
qed

lemma live_shift: "live d \<Longrightarrow> live (shift_step d)"
  using shift_step_range[of d] shift_step_zero[of d] by (auto simp: live_def)

lemma live_funpow: "live d \<Longrightarrow> live ((shift_step ^^ n) d)"
  by (induction n) (simp_all add: live_shift)

subsection \<open>One changed value changes the checksum\<close>

lemma fold_polymod_xor:
  "fold (\<lambda>v chk. polymod_step chk v) vs (c XOR d) =
     fold (\<lambda>v chk. polymod_step chk v) vs c XOR (shift_step ^^ length vs) d"
proof (induction vs arbitrary: c d)
  case Nil
  show ?case by simp
next
  case (Cons v vs)
  show ?case
    by (simp add: polymod_step_xor Cons.IH funpow_swap1)
qed

lemma live_diff:
  assumes "0 \<le> v" "v < 32" "0 \<le> v'" "v' < 32" "v' \<noteq> v"
  shows "live (v XOR v')"
proof -
  have "v XOR v' < 2 ^ 5" using assms by (intro XOR_upper) simp_all
  then have "v XOR v' < 2 ^ 30" by simp
  moreover have "v XOR v' \<noteq> 0" using assms(5) by (metis xor_self_eq xor.left_neutral xor.assoc)
  ultimately show ?thesis using assms by (simp add: live_def)
qed

lemma polymod_single_change:
  assumes k: "k < length vs" and v: "0 \<le> vs ! k" "vs ! k < 32"
    and v': "0 \<le> v'" "v' < 32" "v' \<noteq> vs ! k"
  shows "bech32_polymod (vs[k := v']) \<noteq> bech32_polymod vs"
proof -
  let ?f = "\<lambda>v chk. polymod_step chk v"
  let ?pre = "take k vs" and ?suf = "drop (Suc k) vs"
  let ?c = "fold ?f ?pre 1"
  let ?d = "vs ! k XOR v'"
  have a: "vs = ?pre @ vs ! k # ?suf" using k by (rule id_take_nth_drop)
  have b: "vs[k := v'] = ?pre @ v' # ?suf" using k by (rule upd_conv_take_nth_drop)
  have s: "polymod_step ?c v' = polymod_step ?c (vs ! k) XOR ?d"
    by (simp add: polymod_step_eq xor.assoc)
  have "bech32_polymod (vs[k := v']) = fold ?f ?suf (polymod_step ?c v')"
    by (subst b) (simp add: bech32_polymod_def)
  also have "\<dots> = fold ?f ?suf (polymod_step ?c (vs ! k)) XOR (shift_step ^^ length ?suf) ?d"
    by (simp only: s fold_polymod_xor)
  also have "fold ?f ?suf (polymod_step ?c (vs ! k)) = bech32_polymod vs"
    by (subst (2) a) (simp add: bech32_polymod_def)
  finally have e: "bech32_polymod (vs[k := v']) =
      bech32_polymod vs XOR (shift_step ^^ length ?suf) ?d" .
  have "live ((shift_step ^^ length ?suf) ?d)"
    using live_diff[OF v v'] by (rule live_funpow)
  then have "(shift_step ^^ length ?suf) ?d \<noteq> 0" by (simp add: live_def)
  then show ?thesis
    unfolding e by (metis xor_self_eq xor.left_neutral xor.assoc)
qed

subsection \<open>Replacing one data character\<close>

lemma charset_lower: "c \<in> set BECH32_CHARSET \<Longrightarrow> lower_char c = c"
  by (auto simp: BECH32_CHARSET_def lower_char_def)

lemma one_not_symbol: "CHR ''1'' \<notin> set BECH32_CHARSET"
  by (simp add: BECH32_CHARSET_def)

lemma charset_not_one: "c \<in> set BECH32_CHARSET \<Longrightarrow> c \<noteq> CHR ''1''"
  using one_not_symbol by blast

lemma symbol_value_inj:
  assumes "a \<in> set BECH32_CHARSET" "b \<in> set BECH32_CHARSET" "symbol_value a = symbol_value b"
  shows "a = b"
proof -
  have n: "x \<in> set xs \<Longrightarrow> xs ! length (takeWhile (\<lambda>y. y \<noteq> x) xs) = x" for x :: char and xs
    by (induction xs) auto
  from assms(3) have l: "length (takeWhile (\<lambda>y. y \<noteq> a) BECH32_CHARSET) =
      length (takeWhile (\<lambda>y. y \<noteq> b) BECH32_CHARSET)"
    by (simp add: symbol_value_def)
  have "a = BECH32_CHARSET ! length (takeWhile (\<lambda>y. y \<noteq> a) BECH32_CHARSET)"
    by (rule n[OF assms(1), symmetric])
  also have "\<dots> = BECH32_CHARSET ! length (takeWhile (\<lambda>y. y \<noteq> b) BECH32_CHARSET)"
    by (simp only: l)
  also have "\<dots> = b" by (rule n[OF assms(2)])
  finally show ?thesis .
qed

lemma accepted_parts:
  assumes "nip19_payload s = Inr r"
  shows "\<not> mixes_case s" "\<not> unprintable s" "\<not> separator_misplaced s" "\<not> foreign_symbol s"
    "\<not> checksum_fails s"
  using assms by (auto simp: nip19_payload_eq split: if_splits)

lemma data_change:
  assumes ok: "\<not> separator_misplaced s" "\<not> foreign_symbol s"
    and i: "separator s < int i" "i < length s"
    and c: "c \<in> set BECH32_CHARSET" "c \<noteq> lower_char (s ! i)"
  shows "separator (s[i := c]) = separator s \<and> prefix_part (s[i := c]) = prefix_part s
       \<and> (\<exists>j. j < length (data_words s)
              \<and> data_words (s[i := c]) = (data_words s)[j := symbol_value c]
              \<and> 0 \<le> data_words s ! j \<and> data_words s ! j < 32
              \<and> symbol_value c \<noteq> data_words s ! j)"
proof -
  let ?one = "CHR ''1''"
  have low: "lower (s[i := c]) = (lower s)[i := c]"
    using c(1) by (simp add: lower_def map_update charset_lower)
  have pos: "1 \<le> separator s" using ok(1) by (simp add: separator_misplaced_def)
  then have "?one \<in> set (lower s)"
    using rfind_absent[of ?one "lower s"] by (auto simp: separator_def)
  from rfind_split[OF this] obtain pre suf where
    sp: "lower s = pre @ ?one # suf" and ns: "?one \<notin> set suf"
    and p: "separator s = int (length pre)"
    by (auto simp: separator_def)
  define j where "j = i - Suc (length pre)"
  have len: "length s = length pre + Suc (length suf)"
    using arg_cong[OF sp, of length] by simp
  have ij: "i = Suc (length pre) + j" "j < length suf"
    using i p len by (simp_all add: j_def)
  have low': "lower (s[i := c]) = pre @ ?one # suf[j := c]"
    unfolding low sp using ij by (simp add: list_update_append)
  have ns': "?one \<notin> set (suf[j := c])"
    using ns charset_not_one[OF c(1)] set_update_subset_insert[of suf j c] by auto
  have sep': "separator (s[i := c]) = int (length pre)"
    unfolding separator_def low' by (rule rfind_unique[OF ns'])
  have pre': "prefix_part (s[i := c]) = prefix_part s"
    by (simp add: prefix_part_def sep' p low' sp)
  have d: "data_part s = suf" by (simp add: data_part_def p sp nat_add_distrib)
  have d': "data_part (s[i := c]) = suf[j := c]"
    by (simp add: data_part_def sep' low' nat_add_distrib)
  have w': "data_words (s[i := c]) = (data_words s)[j := symbol_value c]"
    by (simp add: data_words_def d d' map_update)
  have sj: "suf ! j = lower_char (s ! i)"
  proof -
    have "lower s ! i = suf ! j" unfolding sp using ij by (simp add: nth_append)
    moreover have "lower s ! i = lower_char (s ! i)" using i(2) by (simp add: lower_def)
    ultimately show ?thesis by simp
  qed
  have mem: "suf ! j \<in> set BECH32_CHARSET"
    using ok(2) ij(2) by (auto simp: foreign_symbol_def d)
  have wj: "data_words s ! j = symbol_value (suf ! j)"
    using ij(2) by (simp add: data_words_def d)
  have ne: "symbol_value c \<noteq> data_words s ! j"
    using symbol_value_inj[OF c(1) mem] c(2) sj wj by auto
  have jl: "j < length (data_words s)" using ij(2) by (simp add: data_words_def d)
  show ?thesis
    using sep' p pre' w' jl ne wj symbol_value_range[OF mem] by auto
qed

lemma changed_symbol_breaks_checksum:
  assumes ok: "\<not> separator_misplaced s" "\<not> foreign_symbol s"
    and i: "separator s < int i" "i < length s"
    and c: "c \<in> set BECH32_CHARSET" "c \<noteq> lower_char (s ! i)"
  shows "bech32_polymod (bech32_hrp_expand (prefix_part (s[i := c])) @ data_words (s[i := c])) \<noteq>
         bech32_polymod (bech32_hrp_expand (prefix_part s) @ data_words s)"
proof -
  from data_change[OF assms] obtain j where
    pre: "prefix_part (s[i := c]) = prefix_part s"
    and j: "j < length (data_words s)"
    and w: "data_words (s[i := c]) = (data_words s)[j := symbol_value c]"
    and r: "0 \<le> data_words s ! j" "data_words s ! j < 32"
    and ne: "symbol_value c \<noteq> data_words s ! j"
    by blast
  let ?hx = "bech32_hrp_expand (prefix_part s)"
  let ?vs = "?hx @ data_words s"
  let ?k = "length ?hx + j"
  have u: "?hx @ (data_words s)[j := symbol_value c] = ?vs[?k := symbol_value c]"
    by (simp add: list_update_append)
  have k: "?k < length ?vs" using j by simp
  have n: "?vs ! ?k = data_words s ! j" by (simp add: nth_append)
  from polymod_single_change[OF k, of "symbol_value c"] r ne symbol_value_range[OF c(1)] n
  have "bech32_polymod (?vs[?k := symbol_value c]) \<noteq> bech32_polymod ?vs" by simp
  then show ?thesis by (simp add: pre w u)
qed

section \<open>Claims on the codec\<close>

text \<open>
  Claim C1.  \<^verbatim>\<open>_nip19_payload\<close> raises, and returns nothing, exactly when the string
  mixes upper and lower case, or holds a character outside \<open>33..126\<close>, or its
  rightmost \<open>1\<close> is at an offset below 1 or is followed by fewer than 6 characters,
  or a character after it is not in the 32-symbol alphabet, or the checksum over the
  expanded prefix and the data is not 1, or regrouping the data without its last 6
  symbols from 5-bit words into octets leaves 5 or more bits or leaves bits that are
  not all zero.  Otherwise it returns the lower-cased prefix and the octets of the
  data without its last 6 symbols.
\<close>

theorem nip19_payload_fails_iff:
  "(isl (nip19_payload s) \<longleftrightarrow>
      mixes_case s \<or> unprintable s \<or> separator_misplaced s \<or> foreign_symbol s
      \<or> checksum_fails s \<or> bad_remainder (payload_words s))
   \<and> nip19_payload s =
      (if mixes_case s \<or> unprintable s \<or> separator_misplaced s \<or> foreign_symbol s
          \<or> checksum_fails s
       then Inl InvalidBech32String
       else if bad_remainder (payload_words s) then Inl InvalidPayloadConversion
       else Inr (prefix_part s, regroup (payload_words s)))"
  by (simp add: nip19_payload_eq)

theorem nip19_payload_fails_iff_witness:
  "nip19_payload ''A12UEL5L'' = Inr (''a'', [])
   \<and> nip19_payload ''npub1qqqqqqqqqqqqqqqqqqqqqqqqqqqqqqqqqqqqqqqqqqqqqqqqqqqqzqujme'' =
       Inr (''npub'', replicate 32 0)
   \<and> isl (nip19_payload ''A12uEL5L'') \<and> mixes_case ''A12uEL5L''
   \<and> isl (nip19_payload ''a12uel5q'') \<and> checksum_fails ''a12uel5q''"
proof -
  let ?a = "''A12UEL5L''"
  let ?n = "''npub1qqqqqqqqqqqqqqqqqqqqqqqqqqqqqqqqqqqqqqqqqqqqqqqqqqqqzqujme''"
  have a: "(if mixes_case ?a \<or> unprintable ?a \<or> separator_misplaced ?a \<or> foreign_symbol ?a
          \<or> checksum_fails ?a
       then Inl InvalidBech32String
       else if bad_remainder (payload_words ?a) then Inl InvalidPayloadConversion
       else Inr (prefix_part ?a, regroup (payload_words ?a))) = Inr (''a'', [])"
    by code_simp
  have n: "(if mixes_case ?n \<or> unprintable ?n \<or> separator_misplaced ?n \<or> foreign_symbol ?n
          \<or> checksum_fails ?n
       then Inl InvalidBech32String
       else if bad_remainder (payload_words ?n) then Inl InvalidPayloadConversion
       else Inr (prefix_part ?n, regroup (payload_words ?n))) = Inr (''npub'', replicate 32 0)"
    by code_simp
  have m: "mixes_case ''A12uEL5L''" by code_simp
  have c: "checksum_fails ''a12uel5q''" by code_simp
  show ?thesis
    using nip19_payload_fails_iff[of ?a] nip19_payload_fails_iff[of ?n]
      nip19_payload_fails_iff[of "''A12uEL5L''"] nip19_payload_fails_iff[of "''a12uel5q''"]
      a n m c
    by simp
qed

text \<open>
  Claim C7, as amended.  Let the decoder accept a string, and replace one character
  after its rightmost \<open>1\<close> by a character of the 32-symbol alphabet other than the
  lower-case form of the character it replaces.  The decoder rejects the new string
  with \<open>Invalid bech32 string\<close>: the string mixes upper and lower case, or its
  checksum no longer evaluates to 1.

  The claim as first stated lets the new character be any alphabet character other
  than the old one.  That fails on an upper-case string: \<open>+21040V36\<close> is accepted, and
  so is \<open>+21040v36\<close>, where the only letter has been replaced by its lower-case form.
\<close>

theorem changed_data_symbol_rejected:
  assumes "nip19_payload s = Inr r"
    and "separator s < int i" and "i < length s"
    and "c \<in> set BECH32_CHARSET" and "c \<noteq> lower_char (s ! i)"
  shows "nip19_payload (s[i := c]) = Inl InvalidBech32String
         \<and> (mixes_case (s[i := c]) \<or> checksum_fails (s[i := c]))"
proof -
  note ok = accepted_parts[OF assms(1)]
  have one: "bech32_polymod (bech32_hrp_expand (prefix_part s) @ data_words s) = 1"
    using ok(5) by (simp add: checksum_fails_def)
  have "checksum_fails (s[i := c])"
    using changed_symbol_breaks_checksum[OF ok(3,4) assms(2-5)] one
    by (simp add: checksum_fails_def)
  then show ?thesis by (simp add: nip19_payload_eq)
qed

theorem changed_data_symbol_rejected_witness:
  "nip19_payload ''a12uel5l'' = Inr (''a'', [])
   \<and> separator ''a12uel5l'' < int 3 \<and> (3::nat) < length ''a12uel5l''
   \<and> CHR ''q'' \<in> set BECH32_CHARSET \<and> CHR ''q'' \<noteq> lower_char (''a12uel5l'' ! 3)
   \<and> nip19_payload (''a12uel5l''[3 := CHR ''q'']) = Inl InvalidBech32String"
proof -
  have a: "nip19_payload ''a12uel5l'' = Inr (''a'', [])" by code_simp
  have b: "separator ''a12uel5l'' < int 3" by code_simp
  have c: "(3::nat) < length ''a12uel5l''" by simp
  have d: "CHR ''q'' \<in> set BECH32_CHARSET" by (simp add: BECH32_CHARSET_def)
  have e: "CHR ''q'' \<noteq> lower_char (''a12uel5l'' ! 3)" by code_simp
  from changed_data_symbol_rejected[OF a b c d e] a b c d e show ?thesis by blast
qed

theorem changed_data_symbol_counterexample:
  "nip19_payload ''+21040V36'' = Inr (''+2'', [])
   \<and> separator ''+21040V36'' < int 6 \<and> (6::nat) < length ''+21040V36''
   \<and> CHR ''v'' \<in> set BECH32_CHARSET \<and> CHR ''v'' \<noteq> ''+21040V36'' ! 6
   \<and> nip19_payload (''+21040V36''[6 := CHR ''v'']) = Inr (''+2'', [])"
  by code_simp

section \<open>Claims on the TLV reader\<close>

lemma parse_tlvs_loop_scan:
  "i \<le> length payload \<Longrightarrow> parse_tlvs_loop payload i acc = Inr (tlv_scan (drop i payload) acc)"
proof (induction payload i acc rule: parse_tlvs_loop.induct)
  case (1 payload i tlvs)
  show ?case
  proof (cases "i + 2 \<le> length payload")
    case False
    then have "drop i payload = [] \<or> (\<exists>t. drop i payload = [t])"
      by (cases "drop i payload"; cases "tl (drop i payload)") (auto simp: drop_Suc dest: arg_cong[where f=length])
    with False show ?thesis
      by (subst parse_tlvs_loop.simps) auto
  next
    case True
    then have d: "drop i payload = payload ! i # payload ! (i + 1) # drop (i + 2) payload"
      by (simp add: Cons_nth_drop_Suc)
    have g: "getitem payload i = Inr (payload ! i)" "getitem payload (i + 1) = Inr (payload ! (i + 1))"
      using True by (simp_all add: getitem_def)
    show ?thesis
    proof (cases "i + 2 + unat (payload ! (i + 1)) > length payload")
      case over: True
      then show ?thesis
        apply (subst parse_tlvs_loop.simps)
        using True g d by (auto simp del: parse_tlvs_loop.simps)
    next
      case fits: False
      have ih: "parse_tlvs_loop payload (i + 2 + unat (payload ! (i + 1)))
            (setdefault_append tlvs (uint (payload ! i)) (slice payload (i + 2) (i + 2 + unat (payload ! (i + 1))))) =
          Inr (tlv_scan (drop (i + 2 + unat (payload ! (i + 1))) payload)
            (setdefault_append tlvs (uint (payload ! i)) (slice payload (i + 2) (i + 2 + unat (payload ! (i + 1))))))"
        using 1(1)[OF True g(1) g(2) fits] fits by simp
      show ?thesis
        apply (subst parse_tlvs_loop.simps)
        using True g d fits ih by (auto simp del: parse_tlvs_loop.simps simp add: slice_def add.commute)
    qed
  qed
qed

text \<open>
  Claim C2.  On every byte buffer \<^verbatim>\<open>_parse_tlvs\<close> returns a dictionary and raises
  nothing: its two index reads are always in range.  The dictionary is the one of the
  scan that reads one type byte, one length byte and that many value bytes per record
  and stops, keeping what it has gathered, as soon as fewer than two header bytes or
  fewer value bytes than declared remain.  On the buffer \<open>00 03 'a' 'b' 'c' 02 20\<close>
  followed by 32 bytes \<open>01\<close> the result is \<open>{0: [b"abc"], 2: [32 bytes 01]}\<close>.
\<close>

theorem parse_tlvs_total:
  "parse_tlvs payload = Inr (tlv_scan payload [])
   \<and> parse_tlvs sample_tlv_buffer = Inr [(0, [[97, 98, 99]]), (2, [replicate 32 1])]"
proof -
  have a: "parse_tlvs payload = Inr (tlv_scan payload [])" for payload
    using parse_tlvs_loop_scan[of 0 payload "[]"] by (simp add: parse_tlvs_def)
  have b: "tlv_scan sample_tlv_buffer [] = [(0, [[97, 98, 99]]), (2, [replicate 32 1])]"
    by (simp add: sample_tlv_buffer_def)
  show ?thesis using a b by simp
qed

theorem parse_tlvs_total_witness:
  "parse_tlvs [0, 3, 97, 98, 99, 2, 32, 1, 1] = Inr [(0, [[97, 98, 99]])]
   \<and> parse_tlvs [7] = Inr []"
  using parse_tlvs_total [of "[0, 3, 97, 98, 99, 2, 32, 1, 1]"] parse_tlvs_total [of "[7]"]
  by simp


section \<open>Lemmas on the identifiers\<close>

lemma get_setdefault_append:
  "get_or_empty (setdefault_append d k v) t = get_or_empty d t @ (if k = t then [v] else [])"
  by (induction d k v rule: setdefault_append.induct) (auto simp: get_or_empty_def)

lemma tlv_scan_values:
  "get_or_empty (tlv_scan buf acc) t =
     get_or_empty acc t @ map snd (filter (\<lambda>r. fst r = t) (tlv_records buf))"
  by (induction buf acc rule: tlv_scan.induct) (auto simp: get_setdefault_append)

lemma parse_tlvs_eq: "parse_tlvs payload = Inr (tlv_scan payload [])"
  using parse_tlvs_loop_scan[of 0 payload "[]"]
  by (simp add: parse_tlvs_def del: parse_tlvs_loop.simps)

lemma get_or_empty_Nil: "get_or_empty [] t = []"
  by (simp add: get_or_empty_def)

lemma scan_values: "get_or_empty (tlv_scan payload []) t = tlv_values payload t"
  by (simp add: tlv_scan_values tlv_values_def get_or_empty_Nil)

lemma decode_relays_eq: "decode_relays utf8_decode rs = List.map_filter utf8_decode rs"
  by (induction rs) (auto split: option.splits)

lemma uint32_be_eq: "length k = 4 \<Longrightarrow> int_from_bytes_big k = uint32_be k"
proof -
  assume "length k = 4"
  then obtain a b c d where "k = [a, b, c, d]"
    by (auto simp: length_Suc_conv numeral_eq_Suc)
  then show ?thesis by (simp add: int_from_bytes_big_def uint32_be_def)
qed

lemma uint32_be_range: "0 \<le> uint32_be k \<and> uint32_be k < 2 ^ 32"
proof -
  have b: "0 \<le> uint x \<and> uint x \<le> 255" for x :: byte
    using uint_lt2p[of x] by simp
  have "uint (k ! 0) * 2 ^ 24 \<le> 255 * 2 ^ 24" "uint (k ! 1) * 2 ^ 16 \<le> 255 * 2 ^ 16"
    "uint (k ! 2) * 2 ^ 8 \<le> 255 * 2 ^ 8"
    using b by simp_all
  then show ?thesis using b[of "k ! 0"] b[of "k ! 1"] b[of "k ! 2"] b[of "k ! 3"]
    by (simp add: uint32_be_def)
qed

lemma decode_nprofile_eq:
  assumes "startswith (lower (find_candidate_token (strip_wrappers nprofile))) ''nprofile1''"
    and "nip19_payload (lower (find_candidate_token (strip_wrappers nprofile))) =
           Inr (''nprofile'', payload)"
  shows "decode_nprofile utf8_decode strip_wrappers find_candidate_token nprofile =
     (case tlv_values payload 0 of
        [] \<Rightarrow> Inl NprofileMissingPubkey
      | pk # others \<Rightarrow>
          if length pk = 32
          then Inr (hex pk, List.map_filter utf8_decode (tlv_values payload 1))
          else Inl NprofileMissingPubkey)"
  using assms
  by (simp add: decode_nprofile_def Let_def parse_tlvs_eq scan_values decode_relays_eq split: list.splits)

lemma decode_naddr_eq:
  assumes "startswith (lower (find_candidate_token (strip_wrappers naddr))) ''naddr1''"
    and "nip19_payload (lower (find_candidate_token (strip_wrappers naddr))) =
           Inr (''naddr'', payload)"
  shows "decode_naddr utf8_decode strip_wrappers find_candidate_token naddr =
     (case tlv_values payload 0 of
        [] \<Rightarrow> Inl NaddrMissingIdentifier
      | id0 # _ \<Rightarrow>
          (case utf8_decode id0 of
             None \<Rightarrow> Inl NaddrIdentifierNotUtf8
           | Some ident \<Rightarrow>
               (case tlv_values payload 2 of
                  [] \<Rightarrow> Inl NaddrMissingAuthor
                | author # _ \<Rightarrow>
                    if length author \<noteq> 32 then Inl NaddrMissingAuthor
                    else
                      (case tlv_values payload 3 of
                         [] \<Rightarrow> Inl NaddrMissingKind
                       | kind0 # _ \<Rightarrow>
                           if length kind0 \<noteq> 4 then Inl NaddrMissingKind
                           else Inr (uint32_be kind0, hex author, ident,
                                     List.map_filter utf8_decode (tlv_values payload 1))))))"
  using assms
  by (simp add: decode_naddr_def Let_def parse_tlvs_eq scan_values decode_relays_eq uint32_be_eq
      split: list.splits option.splits)

section \<open>Claims on the identifiers\<close>

text \<open>
  Claim C3.  Take an \<open>naddr\<close> token whose bech32 layer decodes to the prefix
  \<open>naddr\<close> and a payload.  When the first TLV value of type 3 is not 4 bytes long
  \<^verbatim>\<open>decode_naddr\<close> raises; it neither cuts the value nor pads it.  When it is 4 bytes
  long, every result of \<^verbatim>\<open>decode_naddr\<close> carries as kind the big-endian unsigned
  32-bit number of those bytes, and there is such a result as soon as the first value
  of type 0 decodes as UTF-8 and the first value of type 2 is 32 bytes long.  Without a
  value of type 0, of type 2 or of type 3 \<^verbatim>\<open>decode_naddr\<close> raises.
\<close>

theorem decode_naddr_kind_strict:
  assumes "startswith (lower (find_candidate_token (strip_wrappers naddr))) ''naddr1''"
    and "nip19_payload (lower (find_candidate_token (strip_wrappers naddr))) =
           Inr (''naddr'', payload)"
  shows "(\<forall>k ks. tlv_values payload 3 = k # ks \<and> length k \<noteq> 4 \<longrightarrow>
            isl (decode_naddr utf8_decode strip_wrappers find_candidate_token naddr))
       \<and> (\<forall>k ks kind pk ident rels.
            tlv_values payload 3 = k # ks \<and> length k = 4
            \<and> decode_naddr utf8_decode strip_wrappers find_candidate_token naddr =
                Inr (kind, pk, ident, rels) \<longrightarrow>
            kind = uint32_be k \<and> 0 \<le> kind \<and> kind < 2 ^ 32)
       \<and> (\<forall>i is ident a as k ks.
            tlv_values payload 0 = i # is \<and> utf8_decode i = Some ident
            \<and> tlv_values payload 2 = a # as \<and> length a = 32
            \<and> tlv_values payload 3 = k # ks \<and> length k = 4 \<longrightarrow>
            decode_naddr utf8_decode strip_wrappers find_candidate_token naddr =
              Inr (uint32_be k, hex a, ident,
                   List.map_filter utf8_decode (tlv_values payload 1)))
       \<and> (tlv_values payload 0 = [] \<longrightarrow>
            decode_naddr utf8_decode strip_wrappers find_candidate_token naddr =
              Inl NaddrMissingIdentifier)
       \<and> (tlv_values payload 2 = [] \<longrightarrow>
            isl (decode_naddr utf8_decode strip_wrappers find_candidate_token naddr))
       \<and> (tlv_values payload 3 = [] \<longrightarrow>
            isl (decode_naddr utf8_decode strip_wrappers find_candidate_token naddr))"
proof -
  note eq = decode_naddr_eq[where find_candidate_token=find_candidate_token
      and strip_wrappers=strip_wrappers and naddr=naddr and utf8_decode=utf8_decode, OF assms]
  have a: "\<forall>k ks. tlv_values payload 3 = k # ks \<and> length k \<noteq> 4 \<longrightarrow>
            isl (decode_naddr utf8_decode strip_wrappers find_candidate_token naddr)"
    by (auto simp: eq split: list.splits option.splits)
  have b: "\<forall>k ks kind pk ident rels.
            tlv_values payload 3 = k # ks \<and> length k = 4
            \<and> decode_naddr utf8_decode strip_wrappers find_candidate_token naddr =
                Inr (kind, pk, ident, rels) \<longrightarrow>
            kind = uint32_be k \<and> 0 \<le> kind \<and> kind < 2 ^ 32"
    using uint32_be_range by (auto simp: eq split: list.splits option.splits if_splits)
  have c: "\<forall>i is ident a as k ks.
            tlv_values payload 0 = i # is \<and> utf8_decode i = Some ident
            \<and> tlv_values payload 2 = a # as \<and> length a = 32
            \<and> tlv_values payload 3 = k # ks \<and> length k = 4 \<longrightarrow>
            decode_naddr utf8_decode strip_wrappers find_candidate_token naddr =
              Inr (uint32_be k, hex a, ident,
                   List.map_filter utf8_decode (tlv_values payload 1))"
    by (auto simp: eq)
  have d: "tlv_values payload 0 = [] \<longrightarrow>
            decode_naddr utf8_decode strip_wrappers find_candidate_token naddr =
              Inl NaddrMissingIdentifier"
    by (simp add: eq)
  have e: "tlv_values payload 2 = [] \<longrightarrow>
            isl (decode_naddr utf8_decode strip_wrappers find_candidate_token naddr)"
    by (auto simp: eq split: list.splits option.splits)
  have f: "tlv_values payload 3 = [] \<longrightarrow>
            isl (decode_naddr utf8_decode strip_wrappers find_candidate_token naddr)"
    by (auto simp: eq split: list.splits option.splits)
  from a b c d e f show ?thesis by blast
qed

theorem decode_naddr_kind_strict_witness:
  "decode_naddr utf8_7bit bare_token bare_token sample_naddr =
     Inr (30000, concat (replicate 32 ''01''), ''abc'', [''wss://r.example''])
   \<and> tlv_values sample_naddr_short_kind_payload 3 = [[117, 48]]
   \<and> isl (decode_naddr utf8_7bit bare_token bare_token sample_naddr_short_kind)"
proof -
  have h1: "startswith (lower (bare_token (bare_token sample_naddr))) ''naddr1''"
    by code_simp
  have h2: "nip19_payload (lower (bare_token (bare_token sample_naddr))) =
      Inr (''naddr'', sample_naddr_payload)"
    by code_simp
  note t = decode_naddr_kind_strict[where find_candidate_token=bare_token
      and strip_wrappers=bare_token and naddr=sample_naddr and utf8_decode=utf8_7bit, OF h1 h2]
  have v0: "tlv_values sample_naddr_payload 0 = [97, 98, 99] # []" by code_simp
  have v2: "tlv_values sample_naddr_payload 2 = replicate 32 1 # []" by code_simp
  have v3: "tlv_values sample_naddr_payload 3 = [0, 0, 117, 48] # []" by code_simp
  have u: "utf8_7bit [97, 98, 99] = Some ''abc''" by code_simp
  have l: "length (replicate 32 (1::byte)) = 32" "length [0, 0, 117, 48 :: byte] = 4" by simp_all
  from t have "tlv_values sample_naddr_payload 0 = [97, 98, 99] # []
        \<and> utf8_7bit [97, 98, 99] = Some ''abc''
        \<and> tlv_values sample_naddr_payload 2 = replicate 32 1 # []
        \<and> length (replicate 32 (1::byte)) = 32
        \<and> tlv_values sample_naddr_payload 3 = [0, 0, 117, 48] # []
        \<and> length [0, 0, 117, 48 :: byte] = 4 \<longrightarrow>
      decode_naddr utf8_7bit bare_token bare_token sample_naddr =
        Inr (uint32_be [0, 0, 117, 48], hex (replicate 32 1), ''abc'',
             List.map_filter utf8_7bit (tlv_values sample_naddr_payload 1))"
    by blast
  with v0 v2 v3 u l have r: "decode_naddr utf8_7bit bare_token bare_token sample_naddr =
        Inr (uint32_be [0, 0, 117, 48], hex (replicate 32 1), ''abc'',
             List.map_filter utf8_7bit (tlv_values sample_naddr_payload 1))"
    by blast
  have e: "Inr (uint32_be [0, 0, 117, 48], hex (replicate 32 1), ''abc'',
             List.map_filter utf8_7bit (tlv_values sample_naddr_payload 1)) =
      (Inr (30000, concat (replicate 32 ''01''), ''abc'', [''wss://r.example''])
         :: error + int \<times> string \<times> string \<times> string list)"
    by code_simp
  have g1: "startswith (lower (bare_token (bare_token sample_naddr_short_kind))) ''naddr1''"
    by code_simp
  have g2: "nip19_payload (lower (bare_token (bare_token sample_naddr_short_kind))) =
      Inr (''naddr'', sample_naddr_short_kind_payload)"
    by code_simp
  note s = decode_naddr_kind_strict[where find_candidate_token=bare_token
      and strip_wrappers=bare_token and naddr=sample_naddr_short_kind
      and utf8_decode=utf8_7bit, OF g1 g2]
  have w3: "tlv_values sample_naddr_short_kind_payload 3 = [117, 48] # []" by code_simp
  have "length [117, 48 :: byte] \<noteq> 4" by simp
  with s w3 have f: "isl (decode_naddr utf8_7bit bare_token bare_token sample_naddr_short_kind)"
    by blast
  show ?thesis using r e w3 f by simp
qed

text \<open>
  Claim C4, as amended.  Take an \<open>nprofile\<close> token whose bech32 layer decodes to the
  prefix \<open>nprofile\<close> and a payload.  \<^verbatim>\<open>decode_nprofile\<close> requires a TLV value of type
  0 and requires the first such value to be 32 bytes long; otherwise it raises the
  missing-pubkey error.  Further values of type 0 are ignored.  The values of type 1
  are decoded as UTF-8 one by one, in buffer order, into the relay list; a value that
  does not decode is left out and the decoding goes on.

  The claim as first stated requires exactly one value of type 0.  That fails on a
  payload with two 32-byte values of type 0: the first is returned as the public key.
\<close>

theorem decode_nprofile_first_pubkey:
  assumes "startswith (lower (find_candidate_token (strip_wrappers nprofile))) ''nprofile1''"
    and "nip19_payload (lower (find_candidate_token (strip_wrappers nprofile))) =
           Inr (''nprofile'', payload)"
  shows "decode_nprofile utf8_decode strip_wrappers find_candidate_token nprofile =
     (case tlv_values payload 0 of
        [] \<Rightarrow> Inl NprofileMissingPubkey
      | pk # others \<Rightarrow>
          if length pk = 32
          then Inr (hex pk, List.map_filter utf8_decode (tlv_values payload 1))
          else Inl NprofileMissingPubkey)"
  using assms by (rule decode_nprofile_eq)

theorem decode_nprofile_first_pubkey_witness:
  "tlv_values sample_nprofile_payload 1 =
     [[119, 115, 115, 58, 47, 47, 114, 46, 101, 120, 97, 109, 112, 108, 101], [255, 254],
      [119, 115, 115, 58, 47, 47, 98]]
   \<and> utf8_7bit [255, 254] = None
   \<and> decode_nprofile utf8_7bit bare_token bare_token sample_nprofile =
       Inr (concat (replicate 32 ''01''), [''wss://r.example'', ''wss://b''])"
proof -
  have h1: "startswith (lower (bare_token (bare_token sample_nprofile))) ''nprofile1''"
    by code_simp
  have h2: "nip19_payload (lower (bare_token (bare_token sample_nprofile))) =
      Inr (''nprofile'', sample_nprofile_payload)"
    by code_simp
  note t = decode_nprofile_first_pubkey[where find_candidate_token=bare_token
      and strip_wrappers=bare_token and nprofile=sample_nprofile and utf8_decode=utf8_7bit,
      OF h1 h2]
  have e: "(case tlv_values sample_nprofile_payload 0 of
        [] \<Rightarrow> Inl NprofileMissingPubkey
      | pk # others \<Rightarrow>
          if length pk = 32
          then Inr (hex pk, List.map_filter utf8_7bit (tlv_values sample_nprofile_payload 1))
          else Inl NprofileMissingPubkey) =
      Inr (concat (replicate 32 ''01''), [''wss://r.example'', ''wss://b''])"
    by code_simp
  have v: "tlv_values sample_nprofile_payload 1 =
     [[119, 115, 115, 58, 47, 47, 114, 46, 101, 120, 97, 109, 112, 108, 101], [255, 254],
      [119, 115, 115, 58, 47, 47, 98]]"
    by code_simp
  have u: "utf8_7bit [255, 254] = None" by code_simp
  show ?thesis using t e v u by simp
qed

theorem decode_nprofile_two_keys_counterexample:
  "nip19_payload sample_nprofile_two_keys = Inr (''nprofile'', sample_nprofile_two_keys_payload)
   \<and> tlv_values sample_nprofile_two_keys_payload 0 = [replicate 32 1, replicate 32 2]
   \<and> decode_nprofile utf8_7bit bare_token bare_token sample_nprofile_two_keys =
       Inr (concat (replicate 32 ''01''), [])"
  by code_simp

section \<open>Claims on the address resolution\<close>

lemma added_relays_map: "added_relays (map AddRelay rs @ Connect # rest) = rs @ added_relays rest"
  by (induction rs) (simp_all add: added_relays_def)

lemma fetches_map: "fetches (map AddRelay rs @ Connect # rest) = fetches rest"
  by (induction rs) (simp_all add: fetches_def)

lemma connects_map: "connects (map AddRelay rs @ Connect # rest) = Suc (connects rest)"
  by (induction rs) (simp_all add: connects_def)

lemma calls_tail:
  "added_relays [Disconnect] = []" "added_relays [FetchEvents f t, Disconnect] = []"
  "fetches [Disconnect] = []" "fetches [FetchEvents f t, Disconnect] = [(f, t)]"
  "connects [Disconnect] = 0" "connects [FetchEvents f t, Disconnect] = 0"
  by (simp_all add: added_relays_def fetches_def connects_def)

text \<open>
  Claim C5.  Let \<^verbatim>\<open>decode_naddr\<close> return an address.  \<^verbatim>\<open>resolve_naddr_to_event_id\<close>
  hands the relays embedded in the address to the client when there are any and the
  fallback relays otherwise.  It connects once.  It queries at most once, and exactly
  once when the client connects and the filter can be built; the query carries the
  filter with the address's author, kind and identifier and the limit 1, and the
  timeout of 8 seconds.  A query that returns no event makes it raise the not-found
  error; otherwise it returns the id of the first event.  There is no second attempt.
\<close>

theorem resolve_naddr_single_query:
  assumes "decode_naddr utf8_decode strip_wrappers find_candidate_token naddr =
             Inr (kind, pk_hex, ident, embedded_relays)"
  shows "(let relays = (if embedded_relays \<noteq> [] then embedded_relays else relay_urls);
              f = \<lparr>f_author = pk_hex, f_kind = kind, f_identifier = ident, f_limit = 1\<rparr>;
              run = resolve_naddr_to_event_id utf8_decode strip_wrappers find_candidate_token
                      client naddr relay_urls
          in added_relays (snd run) = relays
             \<and> connects (snd run) = 1
             \<and> fetches (snd run) =
                 (if sdk_connect client relays = None \<and> sdk_build_filter client f = None
                  then [(f, 8)] else [])
             \<and> (sdk_connect client relays = None \<and> sdk_build_filter client f = None \<longrightarrow>
                  fst run =
                    (case sdk_fetch_events client relays f 8 of
                       Inl e \<Rightarrow> Inl e
                     | Inr [] \<Rightarrow> Inl NoEventFound
                     | Inr (ev # _) \<Rightarrow> Inr ev))
             \<and> (\<forall>e. sdk_connect client relays = Some e \<longrightarrow> fst run = Inl e))"
proof -
  define relays where "relays = (if embedded_relays \<noteq> [] then embedded_relays else relay_urls)"
  define f where "f = \<lparr>f_author = pk_hex, f_kind = kind, f_identifier = ident, f_limit = 1\<rparr>"
  define run where "run = resolve_naddr_to_event_id utf8_decode strip_wrappers
      find_candidate_token client naddr relay_urls"
  have run: "run =
      (case sdk_connect client relays of
         Some e \<Rightarrow> (Inl e, map AddRelay relays @ Connect # [Disconnect])
       | None \<Rightarrow>
           (case sdk_build_filter client f of
              Some e \<Rightarrow> (Inl e, map AddRelay relays @ Connect # [Disconnect])
            | None \<Rightarrow>
                (case sdk_fetch_events client relays f 8 of
                   Inl e \<Rightarrow> Inl e
                 | Inr [] \<Rightarrow> Inl NoEventFound
                 | Inr (ev # _) \<Rightarrow> Inr ev,
                 map AddRelay relays @ Connect # [FetchEvents f 8, Disconnect])))"
    unfolding run_def relays_def f_def resolve_naddr_to_event_id_def assms
    by (simp add: Let_def split: option.splits sum.splits list.splits)
  have "added_relays (snd run) = relays
      \<and> connects (snd run) = 1
      \<and> fetches (snd run) =
          (if sdk_connect client relays = None \<and> sdk_build_filter client f = None
           then [(f, 8)] else [])
      \<and> (sdk_connect client relays = None \<and> sdk_build_filter client f = None \<longrightarrow>
           fst run =
             (case sdk_fetch_events client relays f 8 of
                Inl e \<Rightarrow> Inl e
              | Inr [] \<Rightarrow> Inl NoEventFound
              | Inr (ev # _) \<Rightarrow> Inr ev))
      \<and> (\<forall>e. sdk_connect client relays = Some e \<longrightarrow> fst run = Inl e)"
    unfolding run
    by (cases "sdk_connect client relays"; cases "sdk_build_filter client f")
       (simp_all add: added_relays_map fetches_map connects_map calls_tail)
  then show ?thesis
    unfolding relays_def f_def run_def Let_def .
qed


theorem resolve_naddr_single_query_witness:
  "added_relays (snd (resolve_naddr_to_event_id utf8_7bit bare_token bare_token sample_client
       sample_naddr [''wss://fallback.example''])) = [''wss://r.example'']
   \<and> connects (snd (resolve_naddr_to_event_id utf8_7bit bare_token bare_token sample_client
       sample_naddr [''wss://fallback.example''])) = 1
   \<and> fetches (snd (resolve_naddr_to_event_id utf8_7bit bare_token bare_token sample_client
       sample_naddr [''wss://fallback.example''])) =
       [(\<lparr>f_author = concat (replicate 32 ''01''), f_kind = 30000, f_identifier = ''abc'',
           f_limit = 1\<rparr>, 8)]
   \<and> fst (resolve_naddr_to_event_id utf8_7bit bare_token bare_token sample_client
       sample_naddr [''wss://fallback.example'']) = Inr (replicate 64 (CHR ''e''))"
proof -
  have h: "decode_naddr utf8_7bit bare_token bare_token sample_naddr =
      Inr (30000, concat (replicate 32 ''01''), ''abc'', [''wss://r.example''])"
    by code_simp
  show ?thesis
    using resolve_naddr_single_query[OF h, where client=sample_client
        and relay_urls="[''wss://fallback.example'']"]
    by (simp add: Let_def sample_client_def)
qed

section \<open>Lemmas on the probe\<close>

lemma probe_relay_snd:
  "snd (probe_relay c s l m r) = report c s l r"
  by (simp add: report_def probe_relay_def Let_def split: option.splits sum.splits)

lemma probe_relay_fst:
  "fst (probe_relay c s l m r) =
     (case min_pow (report c s l r) of Some b \<Rightarrow> max m b | None \<Rightarrow> m)"
  by (simp add: report_def probe_relay_def Let_def max_def split: option.splits sum.splits)

lemma probe_loop_eq:
  "probe_loop c s l urls m diag =
     (fold (\<lambda>r m. case min_pow (report c s l r) of Some b \<Rightarrow> max m b | None \<Rightarrow> m) urls m,
      diag @ map (report c s l) urls)"
proof (induction urls arbitrary: m diag)
  case Nil
  show ?case by simp
next
  case (Cons r urls)
  obtain m' e where p: "probe_relay c s l m r = (m', e)" by (cases "probe_relay c s l m r")
  have e: "e = report c s l r" using probe_relay_snd[of c s l m r] p by simp
  have m': "m' = (case min_pow (report c s l r) of Some b \<Rightarrow> max m b | None \<Rightarrow> m)"
    using probe_relay_fst[of c s l m r] p by simp
  show ?case by (simp add: p Cons.IH e m')
qed

lemma fold_max_filter:
  "fold (\<lambda>r m. case f r of Some b \<Rightarrow> max m b | None \<Rightarrow> m) xs (m::int) =
     fold max (List.map_filter f xs) m"
  by (induction xs arbitrary: m) (auto simp: max.commute split: option.splits)

lemma fetch_relay_min_pow_eq:
  "fetch_relay_min_pow c s l urls =
     (fold max (List.map_filter (\<lambda>r. min_pow (report c s l r)) urls) 0,
      map (\<lambda>r. (report c s l r)\<lparr>forced :=
            (min_pow (report c s l r) =
               Some (fold max (List.map_filter (\<lambda>r. min_pow (report c s l r)) urls) 0))\<rparr>) urls)"
  by (simp add: fetch_relay_min_pow_def probe_loop_eq fold_max_filter)

lemma report_url: "url (report c s l r) = r"
  by (simp add: report_def probe_relay_def Let_def split: option.splits sum.splits)

lemma report_not_200:
  assumes "capability_fetch c s r = Some (Inr resp)" "status_code resp \<noteq> 200"
  shows "\<not> reachable (report c s l r) \<and> min_pow (report c s l r) = None"
  using assms
  by (auto simp: report_def probe_relay_def capability_fetch_def Let_def
      split: option.splits if_splits)

lemma limits_of_empty: "limits_of (JObj []) = Inr (JObj [])"
  by (simp add: limits_of_def)

lemma best_loop_empty: "best_loop (JObj []) ks b = Inr b"
  by (induction ks arbitrary: b) simp_all

lemma report_empty_body:
  assumes "capability_fetch c s r = Some (Inr resp)" "status_code resp = 200" "content resp = []"
  shows "reachable (report c s l r) \<and> min_pow (report c s l r) = None"
  using assms
  by (auto simp: report_def probe_relay_def capability_fetch_def Let_def limits_of_empty
      best_loop_empty split: option.splits if_splits)

lemma map_filter_of_map: "List.map_filter f (map g xs) = List.map_filter (\<lambda>x. f (g x)) xs"
  by (induction xs) (auto split: option.splits)


lemma report_no_conversion:
  assumes "capability_fetch c s r = None"
  shows "\<not> reachable (report c s l r) \<and> min_pow (report c s l r) = None"
  using assms
  by (auto simp: report_def probe_relay_def capability_fetch_def Let_def
      split: option.splits if_splits)

lemma report_exception:
  assumes "capability_fetch c s r = Some (Inl e)"
  shows "\<not> reachable (report c s l r) \<and> min_pow (report c s l r) = None"
  using assms
  by (auto simp: report_def probe_relay_def capability_fetch_def Let_def
      split: option.splits if_splits)

lemma urllib_never_200:
  assumes "\<forall>k<3. \<exists>r. wire k = Inr r \<and> status_code r \<noteq> 200"
  shows "case fst (http_request ''GET'' (urllib_urlopen wire) 3) of
           Inl e \<Rightarrow> True
         | Inr resp \<Rightarrow> status_code resp \<noteq> 200"
proof (cases "find (\<lambda>k. \<not> attempt_fails (urllib_urlopen wire) k) [0..<nat 3]")
  case None
  then show ?thesis
    using http_request_closed[OF upper_get, of 3 "urllib_urlopen wire"] by simp
next
  case (Some k)
  from find_upt_Some[OF Some] have k: "k < 3" by simp
  from assms k obtain r where r: "wire k = Inr r" "status_code r \<noteq> 200" by blast
  have "http_request ''GET'' (urllib_urlopen wire) 3 =
      (urllib_urlopen wire k, backoff_from 0 k @ [Attempt k])"
    using http_request_closed[OF upper_get, of 3 "urllib_urlopen wire"] Some by simp
  then show ?thesis using r by (simp add: urllib_urlopen_def)
qed

lemma report_never_200:
  assumes "c r = Some http" "http \<noteq> []" "s http = urllib_urlopen wire"
    and "\<forall>k<3. \<exists>r. wire k = Inr r \<and> status_code r \<noteq> 200"
  shows "\<not> reachable (report c s l r) \<and> min_pow (report c s l r) = None"
proof (cases "fst (http_request ''GET'' (urllib_urlopen wire) 3)")
  case (Inl e)
  then have "capability_fetch c s r = Some (Inl e)"
    using assms(1-3) by (simp add: capability_fetch_def)
  then show ?thesis by (rule report_exception)
next
  case (Inr resp)
  then have f: "capability_fetch c s r = Some (Inr resp)"
    using assms(1-3) by (simp add: capability_fetch_def)
  have "status_code resp \<noteq> 200" using urllib_never_200[OF assms(4)] Inr by simp
  with f show ?thesis by (rule report_not_200)
qed

section \<open>Claims on the probe\<close>

text \<open>
  Claim C8, as amended.  When the capability fetch for a relay yields a status other
  than 200, the report on that relay has \<open>reachable = False\<close> and no minimal
  difficulty.  The status may arrive as a response that \<^verbatim>\<open>http_request\<close> returns or,
  as urllib does for every status outside \<open>200..299\<close>, as an exception that
  \<^verbatim>\<open>http_request\<close> raises after its retries; the report is the same for every other
  exception of the fetch and for a relay URL that cannot be converted.  When the fetch
  yields the status 200 with an empty body, the report has no minimal difficulty
  either, but \<open>reachable = True\<close>: the source reads an empty body as the empty
  document.

  The claim as first stated has \<open>reachable = False\<close> on an empty body as well.
\<close>

theorem probe_unreachable_unless_200:
  assumes "i < length relay_urls"
  shows "(capability_fetch convert_ws_to_http send (relay_urls ! i) = None \<longrightarrow>
            \<not> reachable (snd (fetch_relay_min_pow convert_ws_to_http send json_loads relay_urls) ! i)
            \<and> min_pow (snd (fetch_relay_min_pow convert_ws_to_http send json_loads relay_urls) ! i)
                = None)
       \<and> (\<forall>e. capability_fetch convert_ws_to_http send (relay_urls ! i) = Some (Inl e) \<longrightarrow>
            \<not> reachable (snd (fetch_relay_min_pow convert_ws_to_http send json_loads relay_urls) ! i)
            \<and> min_pow (snd (fetch_relay_min_pow convert_ws_to_http send json_loads relay_urls) ! i)
                = None)
       \<and> (\<forall>resp. capability_fetch convert_ws_to_http send (relay_urls ! i) = Some (Inr resp)
              \<and> status_code resp \<noteq> 200 \<longrightarrow>
            \<not> reachable (snd (fetch_relay_min_pow convert_ws_to_http send json_loads relay_urls) ! i)
            \<and> min_pow (snd (fetch_relay_min_pow convert_ws_to_http send json_loads relay_urls) ! i)
                = None)
       \<and> (\<forall>wire http. convert_ws_to_http (relay_urls ! i) = Some http \<and> http \<noteq> []
              \<and> send http = urllib_urlopen wire
              \<and> (\<forall>k<3. \<exists>r. wire k = Inr r \<and> status_code r \<noteq> 200) \<longrightarrow>
            \<not> reachable (snd (fetch_relay_min_pow convert_ws_to_http send json_loads relay_urls) ! i)
            \<and> min_pow (snd (fetch_relay_min_pow convert_ws_to_http send json_loads relay_urls) ! i)
                = None)
       \<and> (\<forall>resp. capability_fetch convert_ws_to_http send (relay_urls ! i) = Some (Inr resp)
              \<and> status_code resp = 200 \<and> content resp = [] \<longrightarrow>
            reachable (snd (fetch_relay_min_pow convert_ws_to_http send json_loads relay_urls) ! i)
            \<and> min_pow (snd (fetch_relay_min_pow convert_ws_to_http send json_loads relay_urls) ! i)
                = None)
       \<and> url (snd (fetch_relay_min_pow convert_ws_to_http send json_loads relay_urls) ! i) =
            relay_urls ! i"
proof -
  let ?r = "report convert_ws_to_http send json_loads (relay_urls ! i)"
  let ?e = "snd (fetch_relay_min_pow convert_ws_to_http send json_loads relay_urls) ! i"
  have e: "reachable ?e = reachable ?r" "min_pow ?e = min_pow ?r" "url ?e = relay_urls ! i"
    using assms by (simp_all add: fetch_relay_min_pow_eq report_url)
  have a: "capability_fetch convert_ws_to_http send (relay_urls ! i) = None \<longrightarrow>
      \<not> reachable ?r \<and> min_pow ?r = None"
    using report_no_conversion by blast
  have b: "\<forall>x. capability_fetch convert_ws_to_http send (relay_urls ! i) = Some (Inl x) \<longrightarrow>
      \<not> reachable ?r \<and> min_pow ?r = None"
    using report_exception by blast
  have c: "\<forall>resp. capability_fetch convert_ws_to_http send (relay_urls ! i) = Some (Inr resp)
      \<and> status_code resp \<noteq> 200 \<longrightarrow> \<not> reachable ?r \<and> min_pow ?r = None"
    using report_not_200 by blast
  have d: "\<forall>wire http. convert_ws_to_http (relay_urls ! i) = Some http \<and> http \<noteq> []
      \<and> send http = urllib_urlopen wire
      \<and> (\<forall>k<3. \<exists>r. wire k = Inr r \<and> status_code r \<noteq> 200) \<longrightarrow>
      \<not> reachable ?r \<and> min_pow ?r = None"
    using report_never_200 by blast
  have f: "\<forall>resp. capability_fetch convert_ws_to_http send (relay_urls ! i) = Some (Inr resp)
      \<and> status_code resp = 200 \<and> content resp = [] \<longrightarrow> reachable ?r \<and> min_pow ?r = None"
    using report_empty_body by blast
  show ?thesis
    unfolding e using a b c d f by blast
qed

theorem probe_unreachable_unless_200_witness:
  "capability_fetch sample_convert sample_relay_send ''wss://b.example'' =
     Some (Inl (HTTPError 404))
   \<and> \<not> reachable (snd (fetch_relay_min_pow sample_convert sample_relay_send sample_loads
         [''wss://a.example'', ''wss://b.example'', ''wss://c.example'', ''wss://d.example'']) ! 1)
   \<and> min_pow (snd (fetch_relay_min_pow sample_convert sample_relay_send sample_loads
         [''wss://a.example'', ''wss://b.example'', ''wss://c.example'', ''wss://d.example'']) ! 1)
       = None
   \<and> capability_fetch sample_convert sample_relay_send ''wss://d.example'' =
     Some (Inr \<lparr>status_code = 204, headers = [], content = []\<rparr>)
   \<and> \<not> reachable (snd (fetch_relay_min_pow sample_convert sample_relay_send sample_loads
         [''wss://a.example'', ''wss://b.example'', ''wss://c.example'', ''wss://d.example'']) ! 3)
   \<and> capability_fetch sample_convert sample_relay_send ''wss://a.example'' =
     Some (Inr \<lparr>status_code = 200, headers = [], content = []\<rparr>)
   \<and> reachable (snd (fetch_relay_min_pow sample_convert sample_relay_send sample_loads
         [''wss://a.example'', ''wss://b.example'', ''wss://c.example'', ''wss://d.example'']) ! 0)
   \<and> min_pow (snd (fetch_relay_min_pow sample_convert sample_relay_send sample_loads
         [''wss://a.example'', ''wss://b.example'', ''wss://c.example'', ''wss://d.example'']) ! 0)
       = None"
proof -
  let ?urls = "[''wss://a.example'', ''wss://b.example'', ''wss://c.example'', ''wss://d.example'']"
  have i0: "(0::nat) < length ?urls" and i1: "(1::nat) < length ?urls"
    and i3: "(3::nat) < length ?urls" by simp_all
  have b: "capability_fetch sample_convert sample_relay_send (?urls ! 1) =
     Some (Inl (HTTPError 404))"
    by code_simp
  have d: "capability_fetch sample_convert sample_relay_send (?urls ! 3) =
     Some (Inr \<lparr>status_code = 204, headers = [], content = []\<rparr>)"
    by code_simp
  have a: "capability_fetch sample_convert sample_relay_send (?urls ! 0) =
     Some (Inr \<lparr>status_code = 200, headers = [], content = []\<rparr>)"
    by code_simp
  note t1 = probe_unreachable_unless_200[OF i1, of sample_convert sample_relay_send sample_loads]
  note t3 = probe_unreachable_unless_200[OF i3, of sample_convert sample_relay_send sample_loads]
  note t0 = probe_unreachable_unless_200[OF i0, of sample_convert sample_relay_send sample_loads]
  have r1: "\<not> reachable (snd (fetch_relay_min_pow sample_convert sample_relay_send sample_loads
         ?urls) ! 1)
      \<and> min_pow (snd (fetch_relay_min_pow sample_convert sample_relay_send sample_loads
         ?urls) ! 1) = None"
    using t1 b by blast
  have s3: "status_code \<lparr>status_code = 204, headers = [], content = []\<rparr> \<noteq> 200" by simp
  have r3: "\<not> reachable (snd (fetch_relay_min_pow sample_convert sample_relay_send sample_loads
         ?urls) ! 3)"
    using t3 d s3 by blast
  have s0: "status_code \<lparr>status_code = 200, headers = [], content = []\<rparr> = 200"
    "content \<lparr>status_code = 200, headers = [], content = []\<rparr> = []" by simp_all
  have r0: "reachable (snd (fetch_relay_min_pow sample_convert sample_relay_send sample_loads
         ?urls) ! 0)
      \<and> min_pow (snd (fetch_relay_min_pow sample_convert sample_relay_send sample_loads
         ?urls) ! 0) = None"
    using t0 a s0 by blast
  show ?thesis using a b d r0 r1 r3 by simp
qed

theorem probe_empty_body_counterexample:
  "capability_fetch sample_convert sample_relay_send ''wss://a.example'' =
     Some (Inr \<lparr>status_code = 200, headers = [], content = []\<rparr>)
   \<and> reachable (snd (fetch_relay_min_pow sample_convert sample_relay_send sample_loads
         [''wss://a.example'']) ! 0)"
  by code_simp

text \<open>
  Claim C9.  In the result of \<^verbatim>\<open>fetch_relay_min_pow\<close> an entry has \<open>forced = True\<close>
  exactly when its own minimal difficulty is an integer equal to the maximum the call
  returns; an entry without a minimal difficulty is never forced.  The maximum returned
  is the greatest of 0 and the minimal difficulties of the entries, and there is one
  entry per relay URL, in order.
\<close>

theorem forced_iff_global_maximum:
  "(\<forall>e\<in>set (snd (fetch_relay_min_pow convert_ws_to_http send json_loads relay_urls)).
      forced e \<longleftrightarrow>
        min_pow e = Some (fst (fetch_relay_min_pow convert_ws_to_http send json_loads relay_urls)))
   \<and> (\<forall>e\<in>set (snd (fetch_relay_min_pow convert_ws_to_http send json_loads relay_urls)).
      min_pow e = None \<longrightarrow> \<not> forced e)
   \<and> fst (fetch_relay_min_pow convert_ws_to_http send json_loads relay_urls) =
       Max (set (0 # List.map_filter min_pow
                      (snd (fetch_relay_min_pow convert_ws_to_http send json_loads relay_urls))))
   \<and> map url (snd (fetch_relay_min_pow convert_ws_to_http send json_loads relay_urls)) =
       relay_urls"
proof -
  let ?f = "\<lambda>r. min_pow (report convert_ws_to_http send json_loads r)"
  let ?m = "fold max (List.map_filter ?f relay_urls) 0"
  let ?d = "map (\<lambda>r. (report convert_ws_to_http send json_loads r)\<lparr>forced := (?f r = Some ?m)\<rparr>)
      relay_urls"
  have r: "fetch_relay_min_pow convert_ws_to_http send json_loads relay_urls = (?m, ?d)"
    by (rule fetch_relay_min_pow_eq)
  have mf: "List.map_filter min_pow ?d = List.map_filter ?f relay_urls"
    by (simp add: map_filter_of_map)
  have mx: "?m = Max (set (0 # List.map_filter ?f relay_urls))"
    by (simp only: Max.set_eq_fold)
  have u: "map url ?d = relay_urls"
    by (simp add: comp_def report_url)
  have a: "\<forall>e\<in>set ?d. forced e \<longleftrightarrow> min_pow e = Some ?m" by auto
  have b: "\<forall>e\<in>set ?d. min_pow e = None \<longrightarrow> \<not> forced e" by auto
  show ?thesis
    unfolding r fst_conv snd_conv mf using a b mx u by blast
qed

theorem forced_iff_global_maximum_witness:
  "fetch_relay_min_pow sample_convert sample_relay_send sample_loads
     [''wss://a.example'', ''wss://b.example'', ''wss://c.example''] =
     (15,
      [\<lparr>url = ''wss://a.example'', reachable = True, min_pow = None, forced = False\<rparr>,
       \<lparr>url = ''wss://b.example'', reachable = False, min_pow = None, forced = False\<rparr>,
       \<lparr>url = ''wss://c.example'', reachable = True, min_pow = Some 15, forced = True\<rparr>])
   \<and> map url (snd (fetch_relay_min_pow sample_convert sample_relay_send sample_loads
         [''wss://a.example'', ''wss://b.example'', ''wss://c.example''])) =
       [''wss://a.example'', ''wss://b.example'', ''wss://c.example'']"
proof -
  have e: "fetch_relay_min_pow sample_convert sample_relay_send sample_loads
     [''wss://a.example'', ''wss://b.example'', ''wss://c.example''] =
     (15,
      [\<lparr>url = ''wss://a.example'', reachable = True, min_pow = None, forced = False\<rparr>,
       \<lparr>url = ''wss://b.example'', reachable = False, min_pow = None, forced = False\<rparr>,
       \<lparr>url = ''wss://c.example'', reachable = True, min_pow = Some 15, forced = True\<rparr>])"
    by code_simp
  show ?thesis
    using forced_iff_global_maximum[of sample_convert sample_relay_send sample_loads
        "[''wss://a.example'', ''wss://b.example'', ''wss://c.example'']"] e
    by simp
qed

end
